theory Spec2Isabelle
  imports Main "HOL-Library.Char_ord" "HOL-Library.List_Lexorder" "HOL-Library.AList"
begin

section \<open>Strings\<close>

text \<open>
  A JavaScript string is modelled as a \<^typ>\<open>string\<close>, one \<^typ>\<open>char\<close> per code unit
  (code units below 256).  The order on strings is the lexicographic order on code
  units, which is the order \<^verbatim>\<open>Array.prototype.sort()\<close> uses without a comparator.
\<close>

definition isWhiteSpace :: "char \<Rightarrow> bool" where
  "isWhiteSpace c = (of_char c \<in> {9, 10, 11, 12, 13, 32, 160 :: nat})"

text \<open>\<^verbatim>\<open>s.trim()\<close>\<close>

definition trim :: "string \<Rightarrow> string" where
  "trim s = rev (dropWhile isWhiteSpace (rev (dropWhile isWhiteSpace s)))"

text \<open>\<^verbatim>\<open>s.startsWith(p)\<close>, \<^verbatim>\<open>s.endsWith(p)\<close>\<close>

definition startsWith :: "string \<Rightarrow> string \<Rightarrow> bool" where
  "startsWith s p = (take (length p) s = p)"

definition endsWith :: "string \<Rightarrow> string \<Rightarrow> bool" where
  "endsWith s p = (length p \<le> length s \<and> drop (length s - length p) s = p)"

text \<open>\<^verbatim>\<open>s.split(c)\<close> for a one-character separator: never the empty array.\<close>

fun split :: "char \<Rightarrow> string \<Rightarrow> string list" where
  "split c [] = [[]]"
| "split c (x # xs) =
     (if x = c then [] # split c xs
      else (case split c xs of [] \<Rightarrow> [[x]] | l # ls \<Rightarrow> (x # l) # ls))"

text \<open>\<^verbatim>\<open>ls.join(sep)\<close>\<close>

fun join :: "string \<Rightarrow> string list \<Rightarrow> string" where
  "join sep [] = []"
| "join sep [l] = l"
| "join sep (l # ls) = l @ sep @ join sep ls"

text \<open>\<^verbatim>\<open>xs.indexOf(x)\<close>: the first index of \<open>x\<close>, or \<open>-1\<close>.\<close>

fun indexOf :: "'a list \<Rightarrow> 'a \<Rightarrow> int" where
  "indexOf [] x = -1"
| "indexOf (y # ys) x =
     (if y = x then 0 else (let i = indexOf ys x in if i = -1 then -1 else i + 1))"

section \<open>apktool.yml: the doNotCompress block\<close>

definition isKeyLine :: "string \<Rightarrow> bool" where
  "isKeyLine line = startsWith (trim line) ''doNotCompress:''"

definition isItemLine :: "string \<Rightarrow> bool" where
  "isItemLine line = startsWith (trim line) ''- ''"

text \<open>
  \<^verbatim>\<open>getDoNotCompressLines\<close>: the loop carries \<open>result\<close> and \<open>inside\<close>; \<^verbatim>\<open>break\<close> returns
  the result collected so far.  The comment test is on the untrimmed line.
\<close>

fun linesLoop :: "string list \<Rightarrow> bool \<Rightarrow> string list \<Rightarrow> string list" where
  "linesLoop result inside [] = result"
| "linesLoop result inside (line # rest) =
     (if isKeyLine line then linesLoop result True rest
      else if inside then
        (if isItemLine line then linesLoop (result @ [line]) inside rest
         else if trim line \<noteq> [] \<and> \<not> startsWith line ''#'' then result
         else linesLoop result inside rest)
      else linesLoop result inside rest)"

definition getDoNotCompressLines :: "string list \<Rightarrow> string list" where
  "getDoNotCompressLines ls = linesLoop [] False ls"

text \<open>
  \<^verbatim>\<open>getDoNotCompressRange\<close>: the loop carries \<open>startIndex\<close>, \<open>endIndex\<close>, \<open>extracted\<close>,
  \<open>inside\<close> and the index \<open>i\<close>.  The key test is guarded by \<^verbatim>\<open>!inside\<close> and the comment
  test is on the trimmed line.
\<close>

record block_range =
  startIndex :: int
  endIndex :: int
  lines :: "string list"

fun rangeLoop :: "int \<Rightarrow> int \<Rightarrow> string list \<Rightarrow> bool \<Rightarrow> int \<Rightarrow> string list \<Rightarrow> block_range" where
  "rangeLoop s e extracted inside i [] = \<lparr>startIndex = s, endIndex = e, lines = extracted\<rparr>"
| "rangeLoop s e extracted inside i (line # rest) =
     (if \<not> inside \<and> isKeyLine line then rangeLoop s e extracted True (i + 1) rest
      else if inside then
        (if isItemLine line
         then rangeLoop (if s = -1 then i else s) i (extracted @ [line]) inside (i + 1) rest
         else if trim line \<noteq> [] \<and> \<not> startsWith (trim line) ''#''
         then \<lparr>startIndex = s, endIndex = e, lines = extracted\<rparr>
         else rangeLoop s e extracted inside (i + 1) rest)
      else rangeLoop s e extracted inside (i + 1) rest)"

definition getDoNotCompressRange :: "string list \<Rightarrow> block_range" where
  "getDoNotCompressRange ls = rangeLoop (-1) (-1) [] False 0 ls"

text \<open>
  \<^verbatim>\<open>mergeApktoolYml\<close> on the contents of the two files; the result is the content written
  to the destination file, or \<open>None\<close> when the function returns before writing.
  \<^verbatim>\<open>new Set([...dst, ...src])\<close> keeps the first occurrence of each line in insertion order.
\<close>

definition splice :: "int \<Rightarrow> int \<Rightarrow> 'a list \<Rightarrow> 'a list \<Rightarrow> 'a list" where
  "splice start deleteCount items xs =
     take (nat start) xs @ items @ drop (nat start + nat deleteCount) xs"

definition mergeApktoolYml :: "string \<Rightarrow> string \<Rightarrow> string option" where
  "mergeApktoolYml srcContent dstContent =
     (let srcLines = split CHR 0x0A srcContent;
          dstLines = split CHR 0x0A dstContent;
          srcDoNotCompress = getDoNotCompressLines srcLines
      in if srcDoNotCompress = [] then None
         else
           (let r = getDoNotCompressRange dstLines;
                combined = rev (remdups (rev (lines r @ srcDoNotCompress)));
                sorted = sort combined;
                newLines =
                  (if startIndex r \<noteq> -1 \<and> endIndex r \<noteq> -1
                   then splice (startIndex r) (endIndex r - startIndex r + 1) sorted dstLines
                   else dstLines)
            in Some (join [CHR 0x0A] newLines)))"


text \<open>The lines of the base file between \<open>startIndex\<close> and \<open>endIndex\<close>, both included.\<close>

definition rangeLines :: "block_range \<Rightarrow> string list \<Rightarrow> string list" where
  "rangeLines r ls = take (nat (endIndex r - startIndex r + 1)) (drop (nat (startIndex r)) ls)"

section \<open>Input collection\<close>

text \<open>
  Lines 79 to 88 of \<^verbatim>\<open>prepareApkFiles\<close>, on the names \<^verbatim>\<open>readdirSync\<close> returned:
  filter, sort, and move \<^verbatim>\<open>base.apk\<close> to the front when its index is positive.
\<close>

definition listApkFiles :: "string list \<Rightarrow> string list" where
  "listApkFiles names =
     (let files = sort (filter (\<lambda>f. endsWith f ''.apk'') names);
          baseIndex = indexOf files ''base.apk''
      in if baseIndex > 0
         then (files ! nat baseIndex) # (take (nat baseIndex) files @ drop (nat baseIndex + 1) files)
         else files)"

section \<open>Manifest text substitutions\<close>

text \<open>
  The four regular expressions of \<^verbatim>\<open>updateMainManifestFile\<close> are sequences of literal
  characters and of \<^verbatim>\<open>.\<close>, which matches any character but a line terminator.
\<close>

datatype pat = Lit char | AnyChar

definition regex :: "string \<Rightarrow> pat list" where
  "regex src = map (\<lambda>c. if c = CHR ''.'' then AnyChar else Lit c) src"

fun matchChar :: "pat \<Rightarrow> char \<Rightarrow> bool" where
  "matchChar (Lit l) c = (c = l)"
| "matchChar AnyChar c = (c \<noteq> CHR 0x0A \<and> c \<noteq> CHR 0x0D)"

fun matchesAt :: "pat list \<Rightarrow> string \<Rightarrow> bool" where
  "matchesAt [] s = True"
| "matchesAt (p # ps) [] = False"
| "matchesAt (p # ps) (c # cs) = (matchChar p c \<and> matchesAt ps cs)"

text \<open>
  \<^verbatim>\<open>s.replace(/p/g, r)\<close> for such a pattern and a replacement without \<^verbatim>\<open>$\<close>: the matches
  are found from left to right, and the scan resumes after each match.
\<close>

function replaceAll :: "pat list \<Rightarrow> string \<Rightarrow> string \<Rightarrow> string" where
  "replaceAll p r [] = (if p = [] then r else [])"
| "replaceAll p r (c # cs) =
     (if p = [] then r @ c # replaceAll p r cs
      else if matchesAt p (c # cs) then r @ replaceAll p r (drop (length p - 1) cs)
      else c # replaceAll p r cs)"
  by pat_completeness auto
termination
  by (relation "measure (\<lambda>(p, r, s). length s)") auto

definition splitRequiredAttr :: "pat list" where
  \<open>splitRequiredAttr = regex '' android:isSplitRequired="true" ''\<close>

definition splitsRequiredMeta :: "pat list" where
  \<open>splitsRequiredMeta =
     regex ''<meta-data android:name="com.android.vending.splits.required" android:value="true"/>''\<close>

definition splitsMeta :: "pat list" where
  \<open>splitsMeta =
     regex ''<meta-data android:name="com.android.vending.splits" android:resource="@xml/splits0"/>''\<close>

definition stampDistribution :: "pat list" where
  \<open>stampDistribution = regex ''android:value="STAMP_TYPE_DISTRIBUTION_APK"''\<close>

text \<open>Lines 249 to 252 of \<^verbatim>\<open>updateMainManifestFile\<close>: the text written back.\<close>

definition sanitizeText :: "string \<Rightarrow> string" where
  \<open>sanitizeText data =
     replaceAll stampDistribution ''android:value="STAMP_TYPE_STANDALONE_APK"''
       (replaceAll splitsMeta []
         (replaceAll splitsRequiredMeta []
           (replaceAll splitRequiredAttr '' '' data)))\<close>

text \<open>Whether a pattern matches somewhere in a text.\<close>

fun occurs :: "pat list \<Rightarrow> string \<Rightarrow> bool" where
  "occurs p [] = matchesAt p []"
| "occurs p (c # cs) = (matchesAt p (c # cs) \<or> occurs p cs)"

definition anyMatch :: "string \<Rightarrow> bool" where
  "anyMatch s = (occurs splitRequiredAttr s \<or> occurs splitsRequiredMeta s \<or>
                 occurs splitsMeta s \<or> occurs stampDistribution s)"


section \<open>Directory trees\<close>

text \<open>
  An unpacked tree: a file with its content, or a directory with its entries in the
  order \<^verbatim>\<open>readdir\<close> lists them.  A lookup takes the first entry of a name; a write
  replaces that entry or appends a new one.
\<close>

datatype node = File string | Dir "(string \<times> node) list"

datatype error =
    ENOENT | ENOTDIR | EISDIR | EEXIST | ENOTEMPTY
  | Rejected string
  | InputNotDirectory
  | NoApkFiles
  | FailedToUnpack string error
  | FailedToPack error
  | ResultApkNotFound
  | FailedToZipalign error

definition child :: "node \<Rightarrow> string \<Rightarrow> node option" where
  "child n name = (case n of File c \<Rightarrow> None | Dir es \<Rightarrow> map_of es name)"

primrec lookup :: "string list \<Rightarrow> node \<Rightarrow> node option" where
  "lookup [] n = Some n"
| "lookup (x # p) n = (case child n x of None \<Rightarrow> None | Some ch \<Rightarrow> lookup p ch)"

text \<open>Replace the node at an existing path.\<close>

primrec writeAt :: "string list \<Rightarrow> node \<Rightarrow> node \<Rightarrow> node" where
  "writeAt [] new n = new"
| "writeAt (x # p) new n =
     (case n of
        File c \<Rightarrow> n
      | Dir es \<Rightarrow>
          (case map_of es x of
             None \<Rightarrow> n
           | Some ch \<Rightarrow> Dir (AList.update x (writeAt p new ch) es)))"

text \<open>Entry names are distinct within each directory, as in any directory listing.\<close>

fun wf :: "node \<Rightarrow> bool" and wfEntries :: "(string \<times> node) list \<Rightarrow> bool" where
  "wf (File c) = True"
| "wf (Dir es) = wfEntries es"
| "wfEntries [] = True"
| "wfEntries ((name, ch) # rest) = (name \<notin> fst ` set rest \<and> wf ch \<and> wfEntries rest)"

section \<open>Tree merge\<close>

text \<open>
  \<^verbatim>\<open>mergeDirContents(src, dst)\<close>, with \<open>src\<close> the node at the source path and \<open>dst\<close> the
  node at the destination path (\<open>None\<close> when nothing exists there; its parent is then
  a directory).  The result is the node at \<open>dst\<close> afterwards and the error thrown, if
  any; what was written before a throw stays written.

  \<^item> \<^verbatim>\<open>mkdir\<close> runs only when nothing exists at \<open>dst\<close>;
  \<^item> \<^verbatim>\<open>readdir(src)\<close> throws when \<open>src\<close> is a file;
  \<^item> below a \<open>dst\<close> that is a file nothing exists, and both \<^verbatim>\<open>mkdir\<close> and
    \<^verbatim>\<open>copyFile\<close> throw;
  \<^item> a file entry is copied only when nothing exists at its destination.
\<close>

fun mergeDirContents :: "node \<Rightarrow> node option \<Rightarrow> node \<times> error option"
  and mergeEntries :: "(string \<times> node) list \<Rightarrow> node \<Rightarrow> node \<times> error option" where
  "mergeDirContents (File c) dst =
     ((case dst of None \<Rightarrow> Dir [] | Some d \<Rightarrow> d), Some ENOTDIR)"
| "mergeDirContents (Dir entries) dst =
     mergeEntries entries (case dst of None \<Rightarrow> Dir [] | Some d \<Rightarrow> d)"
| "mergeEntries [] d = (d, None)"
| "mergeEntries ((name, Dir sub) # rest) d =
     (case d of
        File c \<Rightarrow> (d, Some ENOTDIR)
      | Dir des \<Rightarrow>
          (case mergeDirContents (Dir sub) (map_of des name) of
             (d', Some e) \<Rightarrow> (Dir (AList.update name d' des), Some e)
           | (d', None) \<Rightarrow> mergeEntries rest (Dir (AList.update name d' des))))"
| "mergeEntries ((name, File c) # rest) d =
     (case d of
        File c' \<Rightarrow> (d, Some ENOTDIR)
      | Dir des \<Rightarrow>
          (case map_of des name of
             Some x \<Rightarrow> mergeEntries rest d
           | None \<Rightarrow> mergeEntries rest (Dir (AList.update name (File c) des))))"

definition dirsToMerge :: "string list" where
  "dirsToMerge = [''assets'', ''lib'', ''res'', ''unknown'', ''kotlin'']"

text \<open>
  Lines 116 to 123 of \<^verbatim>\<open>mergeApkContents\<close>: the loop over \<open>dirsToMerge\<close>.  \<open>main\<close> and
  \<open>sec\<close> are the nodes at \<open>mainDir\<close> and \<open>secDir\<close>, \<open>None\<close> when the path does not exist
  (a recursive \<^verbatim>\<open>mkdir\<close> then creates \<open>mainDir\<close> as well).
\<close>

fun mergeDirsLoop :: "string list \<Rightarrow> node option \<Rightarrow> node option \<Rightarrow> node option \<times> error option" where
  "mergeDirsLoop [] main sec = (main, None)"
| "mergeDirsLoop (dir # dirs) main sec =
     (case (case sec of None \<Rightarrow> None | Some s \<Rightarrow> child s dir) of
        None \<Rightarrow> mergeDirsLoop dirs main sec
      | Some src \<Rightarrow>
          (case main of
             Some (File c) \<Rightarrow> (main, Some ENOTDIR)
           | _ \<Rightarrow>
               (let des = (case main of Some (Dir es) \<Rightarrow> es | _ \<Rightarrow> []) in
                case mergeDirContents src (map_of des dir) of
                  (d', Some e) \<Rightarrow> (Some (Dir (AList.update dir d' des)), Some e)
                | (d', None) \<Rightarrow> mergeDirsLoop dirs (Some (Dir (AList.update dir d' des))) sec)))"

definition mergeDirs :: "node option \<Rightarrow> node option \<Rightarrow> node option \<times> error option" where
  "mergeDirs main sec = mergeDirsLoop dirsToMerge main sec"

text \<open>Lines 125 to 130 of \<^verbatim>\<open>mergeApkContents\<close>: the two configuration files.\<close>

definition mergeConfig :: "node option \<Rightarrow> node option \<Rightarrow> node option \<times> error option" where
  "mergeConfig main sec =
     (case (case sec of None \<Rightarrow> None | Some s \<Rightarrow> child s ''apktool.yml'') of
        None \<Rightarrow> (main, None)
      | Some srcConfig \<Rightarrow>
          (case (case main of None \<Rightarrow> None | Some m \<Rightarrow> child m ''apktool.yml'') of
             None \<Rightarrow> (main, None)
           | Some dstConfig \<Rightarrow>
               (case srcConfig of
                  Dir es \<Rightarrow> (main, Some EISDIR)
                | File srcContent \<Rightarrow>
                    (case dstConfig of
                       Dir es \<Rightarrow> (main, Some EISDIR)
                     | File dstContent \<Rightarrow>
                         (case mergeApktoolYml srcContent dstContent of
                            None \<Rightarrow> (main, None)
                          | Some written \<Rightarrow>
                              (map_option (writeAt [''apktool.yml''] (File written)) main,
                               None))))))"

definition mergeApkContents :: "node option \<Rightarrow> node option \<Rightarrow> node option \<times> error option" where
  "mergeApkContents main sec =
     (case mergeDirs main sec of
        (main', Some e) \<Rightarrow> (main', Some e)
      | (main', None) \<Rightarrow> mergeConfig main' sec)"

section \<open>Signature files and the manifest\<close>

definition isSignatureFile :: "string \<Rightarrow> bool" where
  "isSignatureFile file =
     (endsWith file ''.RSA'' \<or> endsWith file ''.SF'' \<or> file = ''MANIFEST.MF'')"

text \<open>
  The loop of \<^verbatim>\<open>deleteSignatureRelatedFiles\<close> over the names read at its start, on the
  entries of the directory; \<^verbatim>\<open>unlink\<close> throws on a directory and on a missing name.
\<close>

fun unlinkLoop :: "string list \<Rightarrow> (string \<times> node) list \<Rightarrow> (string \<times> node) list \<times> error option" where
  "unlinkLoop [] es = (es, None)"
| "unlinkLoop (file # files) es =
     (if isSignatureFile file
      then (case map_of es file of
              None \<Rightarrow> (es, Some ENOENT)
            | Some (Dir sub) \<Rightarrow> (es, Some EISDIR)
            | Some (File c) \<Rightarrow> unlinkLoop files (AList.delete file es))
      else unlinkLoop files es)"

definition metaInfPath :: "string list" where
  "metaInfPath = [''original'', ''META-INF'']"

definition deleteSignatureRelatedFiles :: "node option \<Rightarrow> node option \<times> error option" where
  "deleteSignatureRelatedFiles apkDir =
     (case (case apkDir of None \<Rightarrow> None | Some a \<Rightarrow> lookup metaInfPath a) of
        None \<Rightarrow> (apkDir, None)
      | Some (File c) \<Rightarrow> (apkDir, Some ENOTDIR)
      | Some (Dir es) \<Rightarrow>
          (case unlinkLoop (map fst es) es of
             (es', err) \<Rightarrow> (map_option (writeAt metaInfPath (Dir es')) apkDir, err)))"

definition updateMainManifestFile :: "node option \<Rightarrow> node option \<times> error option" where
  "updateMainManifestFile apkDir =
     (case (case apkDir of None \<Rightarrow> None | Some a \<Rightarrow> child a ''AndroidManifest.xml'') of
        None \<Rightarrow> (apkDir, None)
      | Some (Dir es) \<Rightarrow> (apkDir, Some EISDIR)
      | Some (File data) \<Rightarrow>
          (map_option (writeAt [''AndroidManifest.xml''] (File (sanitizeText data))) apkDir, None))"


section \<open>The merge request\<close>

text \<open>
  The state of one request: the node at \<open>inputPath\<close>, the workspace \<open>tmpDir\<close>, the file
  at \<open>outputPath\<close>, the lines given to the logger, and the number of calls of
  \<^verbatim>\<open>fs.promises.rm\<close> on the workspace.  The three paths are taken to be disjoint.
\<close>

datatype logLine = Info string | ErrorLine string error

record state =
  inputNode :: "node option"
  tmp :: "node option"
  outputFile :: "string option"
  logs :: "logLine list"
  rmCalls :: nat

text \<open>
  What the request cannot decide: the external tools, run on the workspace, return the
  workspace they leave and the error of a non-zero exit; the remaining fields say whether
  the runtime rejects the creation of the workspace, the creation of the output's parent
  directory, the copy to the output and the removal of the workspace.  The copy to the
  output is not atomic: when it is rejected, \<open>copyOutput\<close> gives, for the content to copy
  and the file that was at the output path, the error and what is left at the output
  path (nothing, a truncated file, or the old file).
\<close>

record env =
  mkdirTmp :: "error option"
  apktoolDecode :: "string \<Rightarrow> node \<Rightarrow> node \<times> error option"
  apktoolBuild :: "string \<Rightarrow> node \<Rightarrow> node \<times> error option"
  zipalign :: "node \<Rightarrow> node \<times> error option"
  mkdirOutput :: "error option"
  copyOutput :: "string \<Rightarrow> string option \<Rightarrow> (error \<times> string option) option"
  rmTmp :: "error option"

text \<open>An asynchronous step either throws (\<open>Inl\<close>) or returns (\<open>Inr\<close>), and leaves a state.\<close>

type_synonym 'a io = "state \<Rightarrow> (error + 'a) \<times> state"

definition ret :: "'a \<Rightarrow> 'a io" where
  "ret x s = (Inr x, s)"

definition throw :: "error \<Rightarrow> 'a io" where
  "throw e s = (Inl e, s)"

definition bind :: "'a io \<Rightarrow> ('a \<Rightarrow> 'b io) \<Rightarrow> 'b io" where
  "bind m f s = (case m s of (Inl e, s') \<Rightarrow> (Inl e, s') | (Inr x, s') \<Rightarrow> f x s')"

definition logInfo :: "string \<Rightarrow> unit io" where
  "logInfo msg s = (Inr (), s\<lparr>logs := logs s @ [Info msg]\<rparr>)"

text \<open>A step on the workspace; it throws \<open>ENOENT\<close> when the workspace does not exist.\<close>

definition withWs :: "(node \<Rightarrow> (error + 'a) \<times> node) \<Rightarrow> 'a io" where
  "withWs f s =
     (case tmp s of
        None \<Rightarrow> (Inl ENOENT, s)
      | Some ws \<Rightarrow> (case f ws of (r, ws') \<Rightarrow> (r, s\<lparr>tmp := Some ws'\<rparr>)))"

text \<open>
  \<^verbatim>\<open>path.join(tmpDir, name)\<close>: the workspace itself for the empty name.  A step reads
  the directories it works on when it starts and writes the result back when it ends;
  the directories of different archives are taken not to lie inside one another.
\<close>

definition wsDir :: "node \<Rightarrow> string \<Rightarrow> node option" where
  "wsDir ws name = (if name = [] then Some ws else child ws name)"

definition wsPut :: "node \<Rightarrow> string \<Rightarrow> node option \<Rightarrow> node" where
  "wsPut ws name n =
     (if name = [] then (case n of None \<Rightarrow> ws | Some x \<Rightarrow> x)
      else (case ws of
              File c \<Rightarrow> ws
            | Dir es \<Rightarrow>
                (case n of
                   None \<Rightarrow> Dir (AList.delete name es)
                 | Some x \<Rightarrow> Dir (AList.update name x es))))"

text \<open>\<^verbatim>\<open>copyFile\<close> and \<^verbatim>\<open>writeFile\<close> to a name directly in the workspace.\<close>

definition writeFileWs :: "string \<Rightarrow> string \<Rightarrow> node \<Rightarrow> (error + unit) \<times> node" where
  "writeFileWs name content ws =
     (case ws of
        File c \<Rightarrow> (Inl ENOTDIR, ws)
      | Dir es \<Rightarrow>
          (case map_of es name of
             Some (Dir sub) \<Rightarrow> (Inl EISDIR, ws)
           | _ \<Rightarrow> (Inr (), Dir (AList.update name (File content) es))))"

definition createTmpDir :: "env \<Rightarrow> unit io" where
  "createTmpDir en s =
     (case mkdirTmp en of
        Some e \<Rightarrow> (Inl e, s)
      | None \<Rightarrow>
          (case tmp s of
             None \<Rightarrow> (Inr (), s\<lparr>tmp := Some (Dir [])\<rparr>)
           | Some (Dir es) \<Rightarrow> (Inr (), s)
           | Some (File c) \<Rightarrow> (Inl EEXIST, s)))"

text \<open>\<^verbatim>\<open>prepareApkFiles\<close>: the copy loop, then the function.\<close>

fun copyLoop :: "(string \<times> node) list \<Rightarrow> string list \<Rightarrow> string list \<Rightarrow> string list io" where
  "copyLoop es [] preparedFiles s = (Inr preparedFiles, s)"
| "copyLoop es (file # files) preparedFiles s =
     (case (case map_of es file of
              None \<Rightarrow> (Inl ENOENT, s)
            | Some (Dir sub) \<Rightarrow> (Inl EISDIR, s)
            | Some (File c) \<Rightarrow> withWs (writeFileWs file c) s) of
        (Inl e, s') \<Rightarrow> (Inl e, s')
      | (Inr u, s') \<Rightarrow> copyLoop es files (preparedFiles @ [file]) s')"

definition prepareApkFiles :: "string list io" where
  "prepareApkFiles s =
     (case inputNode s of
        None \<Rightarrow> (Inl ENOENT, s)
      | Some (File c) \<Rightarrow> (Inl InputNotDirectory, s)
      | Some (Dir es) \<Rightarrow> copyLoop es (listApkFiles (map fst es)) [] s)"

text \<open>\<^verbatim>\<open>unpackApk\<close>: every failure inside its \<^verbatim>\<open>try\<close> is wrapped.\<close>

definition unpackApk :: "env \<Rightarrow> string \<Rightarrow> unit io" where
  "unpackApk en apkFile =
     bind (logInfo (''Unpacking '' @ apkFile @ ''...'')) (\<lambda>u.
       withWs (\<lambda>ws.
         case apktoolDecode en apkFile ws of
           (ws', Some e) \<Rightarrow> (Inl (FailedToUnpack apkFile e), ws')
         | (ws', None) \<Rightarrow>
             (case child ws' apkFile of
                None \<Rightarrow> (Inl (FailedToUnpack apkFile ENOENT), ws')
              | Some (Dir sub) \<Rightarrow> (Inl (FailedToUnpack apkFile EISDIR), ws')
              | Some (File c) \<Rightarrow> (Inr (), wsPut ws' apkFile None))))"

fun unpackAll :: "env \<Rightarrow> string list \<Rightarrow> unit io" where
  "unpackAll en [] = ret ()"
| "unpackAll en (apkFile # apkFiles) = bind (unpackApk en apkFile) (\<lambda>u. unpackAll en apkFiles)"

text \<open>\<^verbatim>\<open>s.replace(pat, rep)\<close> with a string pattern: the first occurrence only.\<close>

fun replaceFirst :: "string \<Rightarrow> string \<Rightarrow> string \<Rightarrow> string" where
  "replaceFirst [] pat rep = (if pat = [] then rep else [])"
| "replaceFirst (c # cs) pat rep =
     (if startsWith (c # cs) pat then rep @ drop (length pat) (c # cs)
      else c # replaceFirst cs pat rep)"

text \<open>A step on the directory \<open>name\<close> of the workspace, written back afterwards.\<close>

definition onDir :: "string \<Rightarrow> (node option \<Rightarrow> node option \<times> error option) \<Rightarrow> unit io" where
  "onDir name f =
     withWs (\<lambda>ws.
       case f (wsDir ws name) of
         (n', Some e) \<Rightarrow> (Inl e, wsPut ws name n')
       | (n', None) \<Rightarrow> (Inr (), wsPut ws name n'))"

fun mergeAll :: "string \<Rightarrow> string list \<Rightarrow> unit io" where
  "mergeAll mainApkDir [] = ret ()"
| "mergeAll mainApkDir (secDir # secDirs) =
     bind (withWs (\<lambda>ws.
             case mergeApkContents (wsDir ws mainApkDir) (wsDir ws secDir) of
               (main', Some e) \<Rightarrow> (Inl e, wsPut ws mainApkDir main')
             | (main', None) \<Rightarrow> (Inr (), wsPut ws mainApkDir main')))
       (\<lambda>u. mergeAll mainApkDir secDirs)"

text \<open>
  \<^verbatim>\<open>packApk\<close>: only the failure of the tool is wrapped; the first entry of \<open>dist\<close> is
  copied to \<open>target.apk\<close>.
\<close>

definition packApk :: "env \<Rightarrow> string \<Rightarrow> unit io" where
  "packApk en apkDirName =
     bind (logInfo ''Repacking APK...'') (\<lambda>u.
       withWs (\<lambda>ws.
         case apktoolBuild en apkDirName ws of
           (ws', Some e) \<Rightarrow> (Inl (FailedToPack e), ws')
         | (ws', None) \<Rightarrow>
             (case (case wsDir ws' apkDirName of None \<Rightarrow> None | Some m \<Rightarrow> child m ''dist'') of
                None \<Rightarrow> (Inl ENOENT, ws')
              | Some (File c) \<Rightarrow> (Inl ENOTDIR, ws')
              | Some (Dir []) \<Rightarrow> (Inl ResultApkNotFound, ws')
              | Some (Dir ((builtApk, File c) # others)) \<Rightarrow> writeFileWs ''target.apk'' c ws'
              | Some (Dir ((builtApk, Dir sub) # others)) \<Rightarrow> (Inl EISDIR, ws'))))"

text \<open>
  \<^verbatim>\<open>rename(from, to)\<close> between two names directly in the workspace: a file replaces a
  file, a directory replaces an empty directory.
\<close>

definition renameWs :: "string \<Rightarrow> string \<Rightarrow> node \<Rightarrow> (error + unit) \<times> node" where
  "renameWs from to ws =
     (case child ws from of
        None \<Rightarrow> (Inl ENOENT, ws)
      | Some (File a) \<Rightarrow>
          (case child ws to of
             Some (Dir sub) \<Rightarrow> (Inl EISDIR, ws)
           | _ \<Rightarrow> (Inr (), wsPut (wsPut ws to (Some (File a))) from None))
      | Some (Dir moved) \<Rightarrow>
          (case child ws to of
             Some (File c) \<Rightarrow> (Inl ENOTDIR, ws)
           | Some (Dir (x # xs)) \<Rightarrow> (Inl ENOTEMPTY, ws)
           | _ \<Rightarrow> (Inr (), wsPut (wsPut ws to (Some (Dir moved))) from None)))"

text \<open>
  \<^verbatim>\<open>zipalignApk\<close>: the tool writes \<open>target-aligned.apk\<close>, which is then renamed to
  \<open>target.apk\<close>; every failure is wrapped and thrown.
\<close>

definition zipalignApk :: "env \<Rightarrow> unit io" where
  "zipalignApk en =
     bind (logInfo ''Zipaligning APK...'') (\<lambda>u.
       withWs (\<lambda>ws.
         case zipalign en ws of
           (ws', Some e) \<Rightarrow> (Inl (FailedToZipalign e), ws')
         | (ws', None) \<Rightarrow>
             (case renameWs ''target-aligned.apk'' ''target.apk'' ws' of
                (Inl e, ws'') \<Rightarrow> (Inl (FailedToZipalign e), ws'')
              | (Inr v, ws'') \<Rightarrow> (Inr (), ws''))))"

text \<open>
  Step 7: the only place where the output path is written.  A rejected \<^verbatim>\<open>mkdir\<close> or
  a missing \<open>target.apk\<close> leaves it as it is; a rejected copy leaves what the runtime
  leaves.
\<close>

definition copyToOutput :: "env \<Rightarrow> unit io" where
  "copyToOutput en s =
     (case mkdirOutput en of
        Some e \<Rightarrow> (Inl e, s)
      | None \<Rightarrow>
          (case (case tmp s of None \<Rightarrow> None | Some ws \<Rightarrow> child ws ''target.apk'') of
             None \<Rightarrow> (Inl ENOENT, s)
           | Some (Dir sub) \<Rightarrow> (Inl EISDIR, s)
           | Some (File c) \<Rightarrow>
               (case copyOutput en c (outputFile s) of
                  Some (e, left) \<Rightarrow> (Inl e, s\<lparr>outputFile := left\<rparr>)
                | None \<Rightarrow> (Inr (), s\<lparr>outputFile := Some c\<rparr>))))"

text \<open>Steps 1 to 4 of the \<^verbatim>\<open>try\<close> block; the result is \<open>mainApkDir\<close>.\<close>

definition stepsBeforePack :: "env \<Rightarrow> string io" where
  "stepsBeforePack en =
     bind prepareApkFiles (\<lambda>apkFiles.
       if length apkFiles < 1 then throw NoApkFiles
       else
         bind (unpackAll en apkFiles) (\<lambda>u.
           let mainApkDir = replaceFirst (hd apkFiles) ''.apk'' [];
               secondaryApkDirs = map (\<lambda>f. replaceFirst f ''.apk'' []) (tl apkFiles)
           in bind (mergeAll mainApkDir secondaryApkDirs) (\<lambda>u.
                bind (onDir mainApkDir deleteSignatureRelatedFiles) (\<lambda>u.
                  bind (onDir mainApkDir updateMainManifestFile) (\<lambda>u.
                    ret mainApkDir)))))"

text \<open>Steps 5 to 7.\<close>

definition stepsFromPack :: "env \<Rightarrow> string \<Rightarrow> string \<Rightarrow> string io" where
  "stepsFromPack en outputPath mainApkDir =
     bind (packApk en mainApkDir) (\<lambda>u.
       bind (zipalignApk en) (\<lambda>u.
         bind (copyToOutput en) (\<lambda>u.
           bind (logInfo (''Merged APK saved to: '' @ outputPath)) (\<lambda>u.
             ret outputPath))))"

definition tryBlock :: "env \<Rightarrow> string \<Rightarrow> string io" where
  "tryBlock en outputPath = bind (stepsBeforePack en) (stepsFromPack en outputPath)"

text \<open>Line 20: the log line after the workspace is created.\<close>

definition logCreated :: "state \<Rightarrow> state" where
  "logCreated s = s\<lparr>logs := logs s @ [Info ''Created temp directory'']\<rparr>"

text \<open>
  \<^verbatim>\<open>mergeApks\<close>: the workspace is created before the \<^verbatim>\<open>try\<close>; the \<^verbatim>\<open>catch\<close> logs
  and rethrows; the \<^verbatim>\<open>finally\<close> awaits the removal of the workspace, and a rejection
  there replaces the completion of the \<^verbatim>\<open>try\<close> and \<^verbatim>\<open>catch\<close> blocks.
\<close>

definition mergeApks :: "env \<Rightarrow> string \<Rightarrow> string io" where
  "mergeApks en outputPath s0 =
     (case createTmpDir en s0 of
        (Inl e, s1) \<Rightarrow> (Inl e, s1)
      | (Inr u, s1) \<Rightarrow>
          (let s2 = logCreated s1;
               (r, s3) = tryBlock en outputPath s2;
               s4 = (case r of
                       Inl e \<Rightarrow> s3\<lparr>logs := logs s3 @ [ErrorLine ''Error merging APKs'' e]\<rparr>
                     | Inr p \<Rightarrow> s3);
               s5 = s4\<lparr>rmCalls := rmCalls s4 + 1\<rparr>
           in case rmTmp en of
                Some e \<Rightarrow> (Inl e, s5)
              | None \<Rightarrow> (r, s5\<lparr>tmp := None\<rparr>)))"


section \<open>A sample request\<close>

text \<open>
  Tools that behave as the code expects, for running the model: the decoder unpacks
  \<open>x.apk\<close> into a directory \<open>x\<close> that holds a resource, a manifest, a configuration file
  and signature files; the builder writes \<open>dist/x.apk\<close>; the aligner writes
  \<open>target-aligned.apk\<close>.
\<close>

definition sampleTree :: "string \<Rightarrow> node" where
  \<open>sampleTree f =
     Dir [(''res'', Dir [(f @ ''.png'', File f)]),
          (''AndroidManifest.xml'', File ''<application android:isSplitRequired="true" >''),
          (''apktool.yml'', File (''doNotCompress:'' @ [CHR 0x0A] @ ''- '' @ f)),
          (''original'', Dir [(''META-INF'',
             Dir [(''CERT.RSA'', File ''r''), (''CERT.SF'', File ''s''),
                  (''MANIFEST.MF'', File ''m''), (''services'', Dir [])])])]\<close>

definition sampleDecode :: "string \<Rightarrow> node \<Rightarrow> node \<times> error option" where
  "sampleDecode f ws = (wsPut ws (replaceFirst f ''.apk'' []) (Some (sampleTree f)), None)"

definition sampleBuild :: "string \<Rightarrow> node \<Rightarrow> node \<times> error option" where
  "sampleBuild d ws =
     (case wsDir ws d of
        Some (Dir es) \<Rightarrow>
          (wsPut ws d (Some (Dir (AList.update ''dist'' (Dir [(d @ ''.apk'', File ''built'')]) es))),
           None)
      | _ \<Rightarrow> (ws, Some (Rejected ''exit 1'')))"

definition sampleZipalign :: "node \<Rightarrow> node \<times> error option" where
  "sampleZipalign ws = (wsPut ws ''target-aligned.apk'' (Some (File ''aligned'')), None)"

definition failingBuild :: "string \<Rightarrow> node \<Rightarrow> node \<times> error option" where
  "failingBuild d ws = (ws, Some (Rejected ''exit 1''))"

definition sampleEnv :: env where
  "sampleEnv =
     \<lparr>mkdirTmp = None, apktoolDecode = sampleDecode, apktoolBuild = sampleBuild,
      zipalign = sampleZipalign, mkdirOutput = None, copyOutput = (\<lambda>c old. None),
      rmTmp = None\<rparr>"

definition repackFailsEnv :: env where
  "repackFailsEnv = sampleEnv\<lparr>apktoolBuild := failingBuild\<rparr>"




definition rmFailsEnv :: env where
  "rmFailsEnv = sampleEnv\<lparr>rmTmp := Some (Rejected ''EBUSY'')\<rparr>"

definition sampleState :: state where
  "sampleState =
     \<lparr>inputNode = Some (Dir [(''split_config.arm64.apk'', File ''s''), (''base.apk'', File ''b'')]),
      tmp = None, outputFile = None, logs = [], rmCalls = 0\<rparr>"

definition emptyInputState :: state where
  "emptyInputState = sampleState\<lparr>inputNode := Some (Dir [])\<rparr>"

section \<open>Predicates for the proofs\<close>



text \<open>A step keeps a field of the state; a field that no workspace or log write changes.\<close>

definition keeps :: "(state \<Rightarrow> 'b) \<Rightarrow> 'a io \<Rightarrow> bool" where
  "keeps fld m = (\<forall>s. fld (snd (m s)) = fld s)"

definition wsOnly :: "(state \<Rightarrow> 'b) \<Rightarrow> bool" where
  "wsOnly fld = (\<forall>s l t. fld (s\<lparr>logs := l\<rparr>) = fld s \<and> fld (s\<lparr>tmp := t\<rparr>) = fld s)"


section \<open>Invariants of the range scan\<close>

text \<open>
  A line the range scan passes over inside the block: an item, a blank line or a
  comment.  \<open>rangeInv\<close> holds of the loop's variables after the lines \<open>pre\<close>;
  \<open>rangePost\<close> holds of the result on the whole input.
\<close>

definition okLine :: "string \<Rightarrow> bool" where
  "okLine l = (isItemLine l \<or> trim l = [] \<or> startsWith (trim l) ''#'')"

definition rangeInv :: "int \<Rightarrow> int \<Rightarrow> string list \<Rightarrow> bool \<Rightarrow> string list \<Rightarrow> bool" where
  "rangeInv s e ex inside pre =
     ((s = -1 \<and> e = -1 \<and> ex = []) \<or>
      (inside \<and> (\<exists>a b c. pre = a @ b @ c \<and> s = int (length a) \<and> e = int (length a + length b) - 1 \<and>
          b \<noteq> [] \<and> isItemLine (hd b) \<and> isItemLine (last b) \<and> ex = filter isItemLine b \<and>
          (\<forall>l\<in>set b \<union> set c. okLine l) \<and> (\<forall>l\<in>set c. \<not> isItemLine l))))"

definition rangePost :: "block_range \<Rightarrow> string list \<Rightarrow> bool" where
  "rangePost r whole =
     ((startIndex r = -1 \<and> endIndex r = -1 \<and> lines r = []) \<or>
      (\<exists>a b c. whole = a @ b @ c \<and> startIndex r = int (length a) \<and>
          endIndex r = int (length a + length b) - 1 \<and>
          b \<noteq> [] \<and> isItemLine (hd b) \<and> isItemLine (last b) \<and> lines r = filter isItemLine b \<and>
          (\<forall>l\<in>set b. okLine l)))"


section \<open>The two scans of the doNotCompress block\<close>

lemma trim_keeps_head: "\<not> isWhiteSpace c \<Longrightarrow> \<exists>t. trim (c # cs) = c # t"
proof -
  assume c: "\<not> isWhiteSpace c"
  have "dropWhile isWhiteSpace (rev cs @ [c]) = dropWhile isWhiteSpace (rev cs) @ [c] \<or> dropWhile isWhiteSpace (rev cs @ [c]) = [c]"
    using c by (simp add: dropWhile_append)
  then show ?thesis using c
    by (auto simp: trim_def intro: exI[of _ "rev (dropWhile isWhiteSpace (rev cs))"])
qed

lemma startsWith_hash_trim: "startsWith l ''#'' \<Longrightarrow> startsWith (trim l) ''#''"
proof -
  assume "startsWith l ''#''"
  then obtain cs where l: "l = CHR ''#'' # cs" by (cases l) (auto simp: startsWith_def)
  have "\<not> isWhiteSpace CHR ''#''" by (simp add: isWhiteSpace_def)
  from trim_keeps_head[OF this, of cs] l show ?thesis by (auto simp: startsWith_def)
qed

lemma scans_agree_loop:
  "\<forall>l\<in>set ls. startsWith (trim l) ''#'' \<longrightarrow> startsWith l ''#'' \<Longrightarrow>
   (if inside then filter isKeyLine ls = [] else length (filter isKeyLine ls) \<le> 1) \<Longrightarrow>
   lines (rangeLoop s e ex inside i ls) = linesLoop ex inside ls"
proof (induction ls arbitrary: s e ex inside i)
  case Nil
  then show ?case by simp
next
  case (Cons l ls)
  show ?case
  proof (cases "isKeyLine l")
    case True
    with Cons.prems have ni: "\<not> inside" and nk: "filter isKeyLine ls = []" by (auto split: if_splits)
    from Cons.prems(1) nk have "lines (rangeLoop s e ex True (i + 1) ls) = linesLoop ex True ls"
      by (intro Cons.IH) auto
    with True ni show ?thesis by simp
  next
    case False
    from Cons.prems False
    have ih: "\<And>s e ex i. lines (rangeLoop s e ex inside i ls) = linesLoop ex inside ls"
      by (intro Cons.IH) (auto split: if_splits)
    from Cons.prems(1) have "startsWith (trim l) ''#'' = startsWith l ''#''"
      using startsWith_hash_trim by auto
    with False ih show ?thesis by (cases inside) simp_all
  qed
qed

lemma rangeInv_post:
  "rangeInv s e ex inside pre \<Longrightarrow>
   rangePost \<lparr>startIndex = s, endIndex = e, lines = ex\<rparr> (pre @ ls)"
  unfolding rangeInv_def rangePost_def
  apply (elim disjE conjE exE)
   apply simp
  apply (rule disjI2)
  subgoal for a b c
    apply (rule exI[of _ a], rule exI[of _ b], rule exI[of _ "c @ ls"])
    apply simp
    done
  done

lemma rangeInv_item:
  assumes "rangeInv s e ex True pre" "isItemLine l" "i = int (length pre)"
  shows "rangeInv (if s = -1 then i else s) i (ex @ [l]) True (pre @ [l])"
  using assms(1) unfolding rangeInv_def
proof (elim disjE conjE exE)
  assume "s = -1" "e = -1" "ex = []"
  then show "(if s = - 1 then i else s) = - 1 \<and> i = - 1 \<and> ex @ [l] = [] \<or>
    True \<and> (\<exists>a b c. pre @ [l] = a @ b @ c \<and> (if s = - 1 then i else s) = int (length a) \<and>
        i = int (length a + length b) - 1 \<and> b \<noteq> [] \<and> isItemLine (hd b) \<and> isItemLine (last b) \<and>
        ex @ [l] = filter isItemLine b \<and> (\<forall>l\<in>set b \<union> set c. okLine l) \<and> (\<forall>l\<in>set c. \<not> isItemLine l))"
    using assms(2,3)
    by (intro disjI2 conjI TrueI exI[of _ pre] exI[of _ "[l]"] exI[of _ "[]"]) (auto simp: okLine_def)
next
  fix a b c
  assume h: "pre = a @ b @ c" "s = int (length a)" "e = int (length a + length b) - 1"
    "b \<noteq> []" "isItemLine (hd b)" "isItemLine (last b)" "ex = filter isItemLine b"
    "\<forall>l\<in>set b \<union> set c. okLine l" "\<forall>l\<in>set c. \<not> isItemLine l"
  then show "(if s = - 1 then i else s) = - 1 \<and> i = - 1 \<and> ex @ [l] = [] \<or>
    True \<and> (\<exists>a b c. pre @ [l] = a @ b @ c \<and> (if s = - 1 then i else s) = int (length a) \<and>
        i = int (length a + length b) - 1 \<and> b \<noteq> [] \<and> isItemLine (hd b) \<and> isItemLine (last b) \<and>
        ex @ [l] = filter isItemLine b \<and> (\<forall>l\<in>set b \<union> set c. okLine l) \<and> (\<forall>l\<in>set c. \<not> isItemLine l))"
    using assms(2,3)
    by (intro disjI2 conjI TrueI exI[of _ a] exI[of _ "b @ c @ [l]"] exI[of _ "[]"])
       (auto simp: okLine_def filter_empty_conv)
qed

lemma rangeInv_skip:
  assumes "rangeInv s e ex inside pre" "\<not> isItemLine l" "inside \<longrightarrow> okLine l"
  shows "rangeInv s e ex inside (pre @ [l])"
  using assms(1) unfolding rangeInv_def
proof (elim disjE conjE exE)
  assume "s = -1" "e = -1" "ex = []"
  then show "s = - 1 \<and> e = - 1 \<and> ex = [] \<or>
    inside \<and> (\<exists>a b c. pre @ [l] = a @ b @ c \<and> s = int (length a) \<and>
        e = int (length a + length b) - 1 \<and> b \<noteq> [] \<and> isItemLine (hd b) \<and> isItemLine (last b) \<and>
        ex = filter isItemLine b \<and> (\<forall>l\<in>set b \<union> set c. okLine l) \<and> (\<forall>l\<in>set c. \<not> isItemLine l))"
    by simp
next
  fix a b c
  assume h: "inside" "pre = a @ b @ c" "s = int (length a)" "e = int (length a + length b) - 1"
    "b \<noteq> []" "isItemLine (hd b)" "isItemLine (last b)" "ex = filter isItemLine b"
    "\<forall>l\<in>set b \<union> set c. okLine l" "\<forall>l\<in>set c. \<not> isItemLine l"
  then show "s = - 1 \<and> e = - 1 \<and> ex = [] \<or>
    inside \<and> (\<exists>a b c. pre @ [l] = a @ b @ c \<and> s = int (length a) \<and>
        e = int (length a + length b) - 1 \<and> b \<noteq> [] \<and> isItemLine (hd b) \<and> isItemLine (last b) \<and>
        ex = filter isItemLine b \<and> (\<forall>l\<in>set b \<union> set c. okLine l) \<and> (\<forall>l\<in>set c. \<not> isItemLine l))"
    using assms(2,3)
    by (intro disjI2 conjI exI[of _ a] exI[of _ b] exI[of _ "c @ [l]"]) auto
qed

lemma rangeInv_enter:
  assumes "rangeInv s e ex False pre"
  shows "rangeInv s e ex True (pre @ [l])"
  using assms unfolding rangeInv_def by simp

lemma rangeLoop_post:
  "rangeInv s e ex inside pre \<Longrightarrow> i = int (length pre) \<Longrightarrow>
   rangePost (rangeLoop s e ex inside i ls) (pre @ ls)"
proof (induction ls arbitrary: s e ex inside i pre)
  case Nil
  then show ?case using rangeInv_post[of s e ex inside pre "[]"] by simp
next
  case (Cons l ls)
  have len: "i + 1 = int (length (pre @ [l]))" using Cons.prems(2) by simp
  have app: "pre @ l # ls = (pre @ [l]) @ ls" by simp
  show ?case
  proof (cases "\<not> inside \<and> isKeyLine l")
    case True
    then have "rangeInv s e ex True (pre @ [l])" using Cons.prems(1) rangeInv_enter by simp
    from Cons.IH[OF this len] True show ?thesis unfolding app by simp
  next
    case nk: False
    show ?thesis
    proof (cases inside)
      case False
      then have "\<not> isItemLine l \<or> True" by simp
      from Cons.prems(1) False have "rangeInv s e ex False (pre @ [l])"
        unfolding rangeInv_def by simp
      from Cons.IH[OF this len] False nk show ?thesis unfolding app by simp
    next
      case True
      show ?thesis
      proof (cases "isItemLine l")
        case it: True
        from rangeInv_item[OF _ it Cons.prems(2)] Cons.prems(1) True
        have "rangeInv (if s = -1 then i else s) i (ex @ [l]) True (pre @ [l])" by simp
        from Cons.IH[OF this len] True it nk show ?thesis unfolding app by simp
      next
        case nit: False
        show ?thesis
        proof (cases "trim l \<noteq> [] \<and> \<not> startsWith (trim l) ''#''")
          case brk: True
          from rangeInv_post[OF Cons.prems(1), of "l # ls"] True nit nk brk show ?thesis by simp
        next
          case False
          then have "okLine l" by (auto simp: okLine_def)
          from rangeInv_skip[OF Cons.prems(1) nit] this
          have "rangeInv s e ex inside (pre @ [l])" by simp
          from Cons.IH[OF this len] True nit nk False show ?thesis unfolding app by auto
        qed
      qed
    qed
  qed
qed

lemma getDoNotCompressRange_post: "rangePost (getDoNotCompressRange ls) ls"
  using rangeLoop_post[of "-1" "-1" "[]" False "[]" 0 ls]
  by (simp add: getDoNotCompressRange_def rangeInv_def)

lemma split_not_Nil: "split c s \<noteq> []"
  by (induction s) (auto split: list.splits)

lemma split_no_sep: "l \<in> set (split c s) \<Longrightarrow> c \<notin> set l"
proof (induction s arbitrary: l)
  case Nil
  then show ?case by simp
next
  case (Cons x xs)
  then show ?case
    by (cases "split c xs") (auto split: if_splits)
qed

lemma split_single: "c \<notin> set l \<Longrightarrow> split c l = [l]"
  by (induction l) auto

lemma split_append_sep: "c \<notin> set l \<Longrightarrow> split c (l @ c # rest) = l # split c rest"
  by (induction l) (auto split: list.splits)

lemma split_join:
  "ls \<noteq> [] \<Longrightarrow> \<forall>l\<in>set ls. c \<notin> set l \<Longrightarrow> split c (join [c] ls) = ls"
proof (induction ls rule: list_nonempty_induct)
  case (single x)
  then show ?case by (simp add: split_single)
next
  case (cons x xs)
  then obtain y ys where "xs = y # ys" by (cases xs) auto
  with cons show ?case by (simp add: split_append_sep)
qed

lemma linesLoop_subset: "set (linesLoop res inside ls) \<subseteq> set res \<union> set ls"
proof (induction ls arbitrary: res inside)
  case Nil
  then show ?case by simp
next
  case (Cons l ls)
  from Cons[of res True] Cons[of res inside] Cons[of "res @ [l]" inside]
  show ?case by (auto split: if_splits)
qed

lemma getDoNotCompressLines_subset: "set (getDoNotCompressLines ls) \<subseteq> set ls"
  using linesLoop_subset[of "[]" False ls] by (simp add: getDoNotCompressLines_def)

lemma sort_distinct: "distinct ys \<Longrightarrow> sort ys = sorted_list_of_set (set ys)"
  by (simp add: sorted_list_of_set_sort_remdups distinct_remdups_id)

lemma rangePost_indices:
  assumes "rangePost r ls" "lines r \<noteq> []"
  shows "0 \<le> startIndex r \<and> startIndex r \<le> endIndex r \<and> endIndex r < int (length ls) \<and>
         ls ! nat (startIndex r) = hd (lines r) \<and> ls ! nat (endIndex r) = last (lines r) \<and>
         filter isItemLine (rangeLines r ls) = lines r \<and>
         (\<forall>l\<in>set (rangeLines r ls). okLine l) \<and>
         ls = take (nat (startIndex r)) ls @ rangeLines r ls @ drop (nat (endIndex r) + 1) ls"
proof -
  from assms obtain a b c where h: "ls = a @ b @ c" "startIndex r = int (length a)"
    "endIndex r = int (length a + length b) - 1" "b \<noteq> []" "isItemLine (hd b)" "isItemLine (last b)"
    "lines r = filter isItemLine b" "\<forall>l\<in>set b. okLine l"
    unfolding rangePost_def by auto
  from h(4) have lb: "0 < length b" by simp
  have rl: "rangeLines r ls = b" using h(1,2,3) lb by (simp add: rangeLines_def)
  have e: "nat (endIndex r) = length a + (length b - 1)" using h(3) lb by (cases b) auto
  have x1: "ls ! nat (startIndex r) = hd b" using h(1,2,4) by (simp add: nth_append hd_conv_nth)
  have "ls ! (length a + (length b - 1)) = (b @ c) ! (length b - 1)"
    unfolding h(1) by (rule nth_append_length_plus)
  also have "\<dots> = b ! (length b - 1)" using lb by (simp add: nth_append)
  also have "\<dots> = last b" using h(4) by (simp add: last_conv_nth)
  finally have x2: "ls ! nat (endIndex r) = last b" using e by simp
  have hdf: "hd (filter isItemLine b) = hd b" using h(4,5) by (cases b) auto
  have lastf: "last (filter isItemLine b) = last b" using h(4,6)
    by (induction b rule: rev_induct) auto
  have "nat (endIndex r) + 1 = length (a @ b)" using e lb by simp
  then have dr: "drop (nat (endIndex r) + 1) ls = c" unfolding h(1) by (metis append.assoc append_eq_conv_conj)
  have tk: "take (nat (startIndex r)) ls = a" using h(1,2) by simp
  have c1: "0 \<le> startIndex r" using h(2) by simp
  have c2: "startIndex r \<le> endIndex r" using h(2,3) lb by simp
  have c3: "endIndex r < int (length ls)" using h(1,3) lb by simp
  have c4: "ls ! nat (startIndex r) = hd (lines r)" using x1 hdf h(7) by simp
  have c5: "ls ! nat (endIndex r) = last (lines r)" using x2 lastf h(7) by simp
  have c6: "filter isItemLine (rangeLines r ls) = lines r" using rl h(7) by simp
  have c7: "\<forall>l\<in>set (rangeLines r ls). okLine l" using rl h(8) by simp
  have c8: "ls = take (nat (startIndex r)) ls @ rangeLines r ls @ drop (nat (endIndex r) + 1) ls"
    unfolding tk rl dr by (rule h(1))
  from c1 c2 c3 c4 c5 c6 c7 c8 show ?thesis by blast
qed

lemma rangePost_empty:
  assumes "rangePost r ls" "lines r = []"
  shows "startIndex r = -1 \<and> endIndex r = -1"
  using assms(1) unfolding rangePost_def
proof (elim disjE exE conjE)
  assume "startIndex r = -1" "endIndex r = -1"
  then show ?thesis by simp
next
  fix a b c :: "string list"
  assume b: "b \<noteq> []" "isItemLine (hd b)" "lines r = filter isItemLine b"
  then have "filter isItemLine b \<noteq> []" by (cases b) auto
  with b(3) assms(2) show ?thesis by simp
qed


section \<open>Tree merge: frame and idempotence\<close>

lemma lookup_update_Dir:
  "lookup p (Dir des) = Some (File c) \<Longrightarrow>
   (\<And>ch q. map_of des name = Some ch \<Longrightarrow> lookup q ch = Some (File c) \<Longrightarrow> lookup q d' = Some (File c)) \<Longrightarrow>
   lookup p (Dir (AList.update name d' des)) = Some (File c)"
  by (cases p) (auto simp: child_def update_conv' split: option.splits)

lemma merge_keeps_files:
  "(\<forall>d p c. dst = Some d \<longrightarrow> lookup p d = Some (File c) \<longrightarrow>
       lookup p (fst (mergeDirContents src dst)) = Some (File c))"
  "(\<forall>p c. lookup p d0 = Some (File c) \<longrightarrow>
       lookup p (fst (mergeEntries entries d0)) = Some (File c))"
proof (induction src dst and entries d0 rule: mergeDirContents_mergeEntries.induct)
  case (1 c dst)
  then show ?case by simp
next
  case (2 entries dst)
  then show ?case by (cases dst) auto
next
  case (3 d)
  then show ?case by simp
next
  case (4 name sub rest d)
  show ?case
  proof (cases d)
    case (File x)
    then show ?thesis by simp
  next
    case (Dir des)
    obtain d' e where r: "mergeDirContents (Dir sub) (map_of des name) = (d', e)" by fastforce
    have k: "\<And>p c. lookup p (Dir des) = Some (File c) \<Longrightarrow>
               lookup p (Dir (AList.update name d' des)) = Some (File c)"
      using 4(1)[OF Dir] r by (intro lookup_update_Dir) auto
    show ?thesis
    proof (cases e)
      case None
      with 4(2)[OF Dir r[symmetric] ] k Dir r show ?thesis by auto
    next
      case (Some a)
      with k Dir r show ?thesis by auto
    qed
  qed
next
  case (5 name c rest d)
  show ?case
  proof (cases d)
    case (File x)
    then show ?thesis by simp
  next
    case (Dir des)
    show ?thesis
    proof (cases "map_of des name")
      case None
      have k: "\<And>p c'. lookup p (Dir des) = Some (File c') \<Longrightarrow>
               lookup p (Dir (AList.update name (File c) des)) = Some (File c')"
        using None by (intro lookup_update_Dir) auto
      with 5(1)[OF Dir None] Dir None show ?thesis by auto
    next
      case (Some a)
      with 5(2)[OF Dir Some] Dir show ?thesis by auto
    qed
  qed
qed

lemma mergeEntries_Dir:
  "mergeEntries rest (Dir des) = (d', e) \<Longrightarrow> k \<notin> fst ` set rest \<Longrightarrow>
   \<exists>des'. d' = Dir des' \<and> map_of des' k = map_of des k"
proof (induction rest arbitrary: des)
  case Nil
  then show ?case by auto
next
  case (Cons a rest)
  obtain name ch where a: "a = (name, ch)" by (cases a)
  from Cons.prems(2) a have nk: "name \<noteq> k" and kr: "k \<notin> fst ` set rest" by auto
  show ?case
  proof (cases ch)
    case (File c)
    show ?thesis
    proof (cases "map_of des name")
      case None
      with Cons.prems(1) a File
      have "mergeEntries rest (Dir (AList.update name (File c) des)) = (d', e)" by simp
      from Cons.IH[OF this kr] nk show ?thesis by (auto simp: update_conv')
    next
      case (Some x)
      with Cons.prems(1) a File have "mergeEntries rest (Dir des) = (d', e)" by simp
      from Cons.IH[OF this kr] show ?thesis .
    qed
  next
    case (Dir sub)
    obtain d1 e1 where r: "mergeDirContents (Dir sub) (map_of des name) = (d1, e1)" by fastforce
    show ?thesis
    proof (cases e1)
      case None
      with Cons.prems(1) a Dir r
      have "mergeEntries rest (Dir (AList.update name d1 des)) = (d', e)" by simp
      from Cons.IH[OF this kr] nk show ?thesis by (auto simp: update_conv')
    next
      case (Some x)
      with Cons.prems(1) a Dir r have "d' = Dir (AList.update name d1 des)" by simp
      with nk show ?thesis by (auto simp: update_conv')
    qed
  qed
qed

lemma merge_idem:
  "wf src \<longrightarrow> (\<forall>d'. mergeDirContents src dst = (d', None) \<longrightarrow>
       mergeDirContents src (Some d') = (d', None))"
  "wfEntries entries \<longrightarrow> (\<forall>d'. mergeEntries entries d0 = (d', None) \<longrightarrow>
       mergeEntries entries d' = (d', None))"
proof (induction src dst and entries d0 rule: mergeDirContents_mergeEntries.induct)
  case (1 c dst)
  then show ?case by simp
next
  case (2 entries dst)
  then show ?case by simp
next
  case (3 d)
  then show ?case by simp
next
  case (4 name sub rest d)
  show ?case
  proof (intro impI allI)
    fix d'
    assume w: "wfEntries ((name, Dir sub) # rest)"
      and m: "mergeEntries ((name, Dir sub) # rest) d = (d', None)"
    from w have nr: "name \<notin> fst ` set rest" and ws: "wf (Dir sub)" and wr: "wfEntries rest" by auto
    from m obtain des where d: "d = Dir des" by (cases d) auto
    obtain d1 e1 where r: "mergeDirContents (Dir sub) (map_of des name) = (d1, e1)" by fastforce
    from m d r have e1: "e1 = None" by (cases e1) auto
    from m d r e1 have m2: "mergeEntries rest (Dir (AList.update name d1 des)) = (d', None)" by simp
    from mergeEntries_Dir[OF m2 nr] obtain des' where d': "d' = Dir des'"
      and l: "map_of des' name = Some d1" by (auto simp: update_conv')
    from 4(1)[OF d] ws r e1 have i1: "mergeDirContents (Dir sub) (Some d1) = (d1, None)" by simp
    from 4(2)[OF d r[symmetric] e1] wr m2 have i2: "mergeEntries rest d' = (d', None)" by simp
    from l have "AList.update name d1 des' = des'" by (rule update_triv)
    with i1 i2 d' l show "mergeEntries ((name, Dir sub) # rest) d' = (d', None)" by simp
  qed
next
  case (5 name c rest d)
  show ?case
  proof (intro impI allI)
    fix d'
    assume w: "wfEntries ((name, File c) # rest)"
      and m: "mergeEntries ((name, File c) # rest) d = (d', None)"
    from w have nr: "name \<notin> fst ` set rest" and wr: "wfEntries rest" by auto
    from m obtain des where d: "d = Dir des" by (cases d) auto
    show "mergeEntries ((name, File c) # rest) d' = (d', None)"
    proof (cases "map_of des name")
      case None
      with m d have m2: "mergeEntries rest (Dir (AList.update name (File c) des)) = (d', None)" by simp
      from mergeEntries_Dir[OF m2 nr] obtain des' where d': "d' = Dir des'"
        and l: "map_of des' name = Some (File c)" by (auto simp: update_conv')
      from 5(1)[OF d None] wr m2 have "mergeEntries rest d' = (d', None)" by simp
      with d' l show ?thesis by simp
    next
      case (Some x)
      with m d have m2: "mergeEntries rest (Dir des) = (d', None)" by simp
      from mergeEntries_Dir[OF m2 nr] obtain des' where d': "d' = Dir des'"
        and l: "map_of des' name = Some x" using Some by auto
      from 5(2)[OF d Some] wr m2 d have "mergeEntries rest d' = (d', None)" by simp
      with d' l show ?thesis by simp
    qed
  qed
qed

lemma wfEntries_map_of: "wfEntries es \<Longrightarrow> map_of es k = Some ch \<Longrightarrow> wf ch"
  by (induction es) (auto split: if_splits)

lemma wf_child: "wf n \<Longrightarrow> child n k = Some ch \<Longrightarrow> wf ch"
  by (cases n) (auto simp: child_def wfEntries_map_of)

lemma mergeDirsLoop_untouched:
  "mergeDirsLoop dirs (Some (Dir des)) sec = (m', e) \<Longrightarrow> k \<notin> set dirs \<Longrightarrow>
   \<exists>des'. m' = Some (Dir des') \<and> map_of des' k = map_of des k"
proof (induction dirs arbitrary: des)
  case Nil
  then show ?case by auto
next
  case (Cons dir dirs)
  from Cons.prems(2) have nk: "dir \<noteq> k" and kr: "k \<notin> set dirs" by auto
  show ?case
  proof (cases "case sec of None \<Rightarrow> None | Some s \<Rightarrow> child s dir")
    case None
    with Cons.prems(1) have "mergeDirsLoop dirs (Some (Dir des)) sec = (m', e)" by simp
    from Cons.IH[OF this kr] show ?thesis .
  next
    case (Some src)
    obtain d1 e1 where r: "mergeDirContents src (map_of des dir) = (d1, e1)" by fastforce
    show ?thesis
    proof (cases e1)
      case None
      with Cons.prems(1) Some r
      have "mergeDirsLoop dirs (Some (Dir (AList.update dir d1 des))) sec = (m', e)" by simp
      from Cons.IH[OF this kr] nk show ?thesis by (auto simp: update_conv')
    next
      case (Some x)
      with Cons.prems(1) \<open>(case sec of None \<Rightarrow> None | Some s \<Rightarrow> child s dir) = Some src\<close> r
      have "m' = Some (Dir (AList.update dir d1 des))" by simp
      with nk show ?thesis by (auto simp: update_conv')
    qed
  qed
qed

lemma mergeDirsLoop_idem:
  "wf sec \<Longrightarrow> distinct dirs \<Longrightarrow> mergeDirsLoop dirs base (Some sec) = (base', None) \<Longrightarrow>
   mergeDirsLoop dirs base' (Some sec) = (base', None)"
proof (induction dirs arbitrary: base)
  case Nil
  then show ?case by simp
next
  case (Cons dir dirs)
  from Cons.prems(2) have nr: "dir \<notin> set dirs" and dd: "distinct dirs" by auto
  show ?case
  proof (cases "child sec dir")
    case None
    with Cons.prems(3) have "mergeDirsLoop dirs base (Some sec) = (base', None)" by simp
    from Cons.IH[OF Cons.prems(1) dd this] None show ?thesis by simp
  next
    case (Some src)
    from wf_child[OF Cons.prems(1) Some] have ws: "wf src" .
    from Cons.prems(3) Some have nf: "\<And>c. base \<noteq> Some (File c)" by auto
    define des where "des = (case base of Some (Dir es) \<Rightarrow> es | _ \<Rightarrow> [])"
    obtain d1 e1 where r: "mergeDirContents src (map_of des dir) = (d1, e1)" by fastforce
    from Cons.prems(3) Some nf r have e1: "e1 = None"
      by (cases e1; cases base; simp add: des_def split: node.splits)
    from Cons.prems(3) Some nf r e1
    have m2: "mergeDirsLoop dirs (Some (Dir (AList.update dir d1 des))) (Some sec) = (base', None)"
      by (cases base; simp add: des_def split: node.splits)
    from mergeDirsLoop_untouched[OF m2 nr] obtain des' where b': "base' = Some (Dir des')"
      and l: "map_of des' dir = Some d1" by (auto simp: update_conv')
    from merge_idem(1)[of src "map_of des dir"] ws r e1
    have i1: "mergeDirContents src (Some d1) = (d1, None)" by simp
    from Cons.IH[OF Cons.prems(1) dd m2] have i2: "mergeDirsLoop dirs base' (Some sec) = (base', None)" .
    from l have "AList.update dir d1 des' = des'" by (rule update_triv)
    with i1 i2 b' l Some show ?thesis by simp
  qed
qed

lemma mergeDirsLoop_keeps_files:
  "lookup p m = Some (File c) \<Longrightarrow>
   \<exists>m'. fst (mergeDirsLoop dirs (Some m) sec) = Some m' \<and> lookup p m' = Some (File c)"
proof (induction dirs arbitrary: m)
  case Nil
  then show ?case by simp
next
  case (Cons dir dirs)
  show ?case
  proof (cases "case sec of None \<Rightarrow> None | Some s \<Rightarrow> child s dir")
    case None
    with Cons show ?thesis by simp
  next
    case (Some src)
    show ?thesis
    proof (cases m)
      case (File x)
      with Some Cons.prems show ?thesis by simp
    next
      case (Dir des)
      obtain d1 e1 where r: "mergeDirContents src (map_of des dir) = (d1, e1)" by fastforce
      have k: "lookup p (Dir (AList.update dir d1 des)) = Some (File c)"
        using Cons.prems Dir merge_keeps_files(1)[of "map_of des dir" src] r
        by (intro lookup_update_Dir) auto
      show ?thesis
      proof (cases e1)
        case None
        with Cons.IH[OF k] Some Dir r show ?thesis by simp
      next
        case (Some a)
        with k \<open>(case sec of None \<Rightarrow> None | Some s \<Rightarrow> child s dir) = Some src\<close> Dir r
        show ?thesis by simp
      qed
    qed
  qed
qed

section \<open>Input order\<close>

lemma indexOf_notin: "x \<notin> set xs \<Longrightarrow> indexOf xs x = -1"
  by (induction xs) (auto simp: Let_def)

lemma indexOf_nonneg: "x \<in> set xs \<Longrightarrow> 0 \<le> indexOf xs x"
  by (induction xs) (auto simp: Let_def)

lemma indexOf_in:
  "x \<in> set xs \<Longrightarrow>
   nat (indexOf xs x) < length xs \<and> xs ! nat (indexOf xs x) = x \<and>
   take (nat (indexOf xs x)) xs @ drop (nat (indexOf xs x) + 1) xs = remove1 x xs"
proof (induction xs)
  case Nil
  then show ?case by simp
next
  case (Cons y ys)
  show ?case
  proof (cases "y = x")
    case True
    then show ?thesis by simp
  next
    case False
    with Cons.prems have xin: "x \<in> set ys" by simp
    from indexOf_nonneg[OF xin] have nn: "0 \<le> indexOf ys x" .
    then have "indexOf ys x \<noteq> -1" by simp
    moreover have "nat (indexOf ys x + 1) = Suc (nat (indexOf ys x))" using nn by simp
    ultimately show ?thesis using False Cons.IH[OF xin] by (simp add: Let_def)
  qed
qed

lemma indexOf_zero: "indexOf xs x = 0 \<Longrightarrow> \<exists>ys. xs = x # ys"
  by (cases xs) (auto simp: Let_def split: if_splits)

lemma base_is_apk: "endsWith ''base.apk'' ''.apk''"
  by (simp add: endsWith_def)

lemma listApkFiles_order:
  "listApkFiles names =
     (if ''base.apk'' \<in> set names
      then ''base.apk'' # remove1 ''base.apk'' (sort (filter (\<lambda>f. endsWith f ''.apk'') names))
      else sort (filter (\<lambda>f. endsWith f ''.apk'') names))"
proof -
  let ?files = "sort (filter (\<lambda>f. endsWith f ''.apk'') names)"
  show ?thesis
  proof (cases "''base.apk'' \<in> set names")
    case False
    then have "''base.apk'' \<notin> set ?files" by simp
    from indexOf_notin[OF this] False show ?thesis by (simp add: listApkFiles_def)
  next
    case True
    then have bin: "''base.apk'' \<in> set ?files" using base_is_apk by simp
    note i = indexOf_in[OF bin] indexOf_nonneg[OF bin]
    show ?thesis
    proof (cases "indexOf ?files ''base.apk'' > 0")
      case pos: True
      with i True show ?thesis by (simp add: listApkFiles_def Let_def)
    next
      case False
      with i have "indexOf ?files ''base.apk'' = 0" by simp
      from indexOf_zero[OF this] obtain ys where "?files = ''base.apk'' # ys" by blast
      with False True show ?thesis by (simp add: listApkFiles_def Let_def)
    qed
  qed
qed

lemma sorted_hd_is_Min: "sorted xs \<Longrightarrow> xs \<noteq> [] \<Longrightarrow> hd xs = Min (set xs)"
proof (cases xs)
  case Nil
  assume "xs \<noteq> []" with Nil show ?thesis by simp
next
  case (Cons x ys)
  assume "sorted xs"
  with Cons have "\<forall>y\<in>set ys. x \<le> y" by simp
  then have "Min (set (x # ys)) = x" by (intro Min_eqI) auto
  with Cons show ?thesis by simp
qed

lemma listApkFiles_first:
  assumes "''base.apk'' \<notin> set names" "filter (\<lambda>f. endsWith f ''.apk'') names \<noteq> []"
  shows "hd (listApkFiles names) = Min {f \<in> set names. endsWith f ''.apk''}"
proof -
  let ?fs = "sort (filter (\<lambda>f. endsWith f ''.apk'') names)"
  from assms(1) have "listApkFiles names = ?fs" by (simp add: listApkFiles_order)
  moreover have "?fs \<noteq> []" using assms(2) by (metis length_0_conv length_sort)
  moreover have "set ?fs = {f \<in> set names. endsWith f ''.apk''}" by auto
  ultimately show ?thesis using sorted_hd_is_Min[of ?fs] by simp
qed

lemma copyLoop_returns:
  "copyLoop es files prepared s = (Inr r, s') \<Longrightarrow> r = prepared @ files"
proof (induction files arbitrary: prepared s)
  case Nil
  then show ?case by simp
next
  case (Cons f files)
  from Cons.prems show ?case
    by (auto split: prod.splits sum.splits option.splits node.splits dest!: Cons.IH)
qed

lemma copyLoop_succeeds:
  "tmp s = Some (Dir wes) \<Longrightarrow> \<forall>n sub. map_of wes n \<noteq> Some (Dir sub) \<Longrightarrow>
   \<forall>f\<in>set files. \<exists>c. map_of es f = Some (File c) \<Longrightarrow>
   \<exists>s'. copyLoop es files prepared s = (Inr (prepared @ files), s')"
proof (induction files arbitrary: prepared s wes)
  case Nil
  then show ?case by simp
next
  case (Cons f files)
  from Cons.prems(3) obtain c where c: "map_of es f = Some (File c)" by auto
  have nd: "\<And>sub. map_of wes f \<noteq> Some (Dir sub)" using Cons.prems(2) by simp
  have w: "writeFileWs f c (Dir wes) = (Inr (), Dir (AList.update f (File c) wes))"
    using nd by (auto simp: writeFileWs_def split: option.splits node.splits)
  let ?s1 = "s\<lparr>tmp := Some (Dir (AList.update f (File c) wes))\<rparr>"
  have step: "withWs (writeFileWs f c) s = (Inr (), ?s1)"
    using Cons.prems(1) w by (simp add: withWs_def)
  have t1: "tmp ?s1 = Some (Dir (AList.update f (File c) wes))" by simp
  have inv: "\<forall>n sub. map_of (AList.update f (File c) wes) n \<noteq> Some (Dir sub)"
    using Cons.prems(2) by (simp add: update_conv')
  from Cons.prems(3) have rest: "\<forall>f\<in>set files. \<exists>c. map_of es f = Some (File c)" by simp
  from Cons.IH[OF t1 inv rest, of "prepared @ [f]"] c step show ?case by simp
qed

section \<open>Substitutions and their fixed points\<close>

lemma matchesAt_length: "matchesAt p s \<Longrightarrow> length p \<le> length s"
  by (induction p s rule: matchesAt.induct) auto

lemma replaceAll_no_occurrence: "p \<noteq> [] \<Longrightarrow> \<not> occurs p s \<Longrightarrow> replaceAll p r s = s"
  by (induction s) auto

lemma replaceAll_length_le:
  "p \<noteq> [] \<Longrightarrow> length r \<le> length p \<Longrightarrow> length (replaceAll p r s) \<le> length s"
proof (induction p r s rule: replaceAll.induct)
  case (1 p r)
  then show ?case by simp
next
  case (2 p r c cs)
  show ?case
  proof (cases "matchesAt p (c # cs)")
    case True
    from matchesAt_length[OF True] have l: "length p \<le> Suc (length cs)" by simp
    from 2(2)[OF 2(4) True 2(4) 2(5)]
    have "length (replaceAll p r (drop (length p - 1) cs)) \<le> length cs - (length p - 1)" by simp
    with True 2(4,5) l show ?thesis by simp
  next
    case False
    with 2(3)[OF 2(4) False 2(4) 2(5)] 2(4) show ?thesis by simp
  qed
qed

lemma replaceAll_length_less:
  "p \<noteq> [] \<Longrightarrow> length r < length p \<Longrightarrow> occurs p s \<Longrightarrow>
   length (replaceAll p r s) < length s"
proof (induction s)
  case Nil
  then show ?case by (cases p) auto
next
  case (Cons c cs)
  show ?case
  proof (cases "matchesAt p (c # cs)")
    case True
    from matchesAt_length[OF True] have l: "length p \<le> Suc (length cs)" by simp
    have "length (replaceAll p r (drop (length p - 1) cs)) \<le> length cs - (length p - 1)"
      using replaceAll_length_le[of p r "drop (length p - 1) cs"] Cons.prems by simp
    with True Cons.prems l show ?thesis by simp
  next
    case False
    with Cons show ?thesis by simp
  qed
qed

lemma replaceAll_fixed:
  assumes "p \<noteq> []" "length r < length p"
  shows "(replaceAll p r s = s) = (\<not> occurs p s)"
  using replaceAll_no_occurrence[OF assms(1), of s r] replaceAll_length_less[OF assms, of s]
  by auto

lemma pattern_sizes:
  "splitRequiredAttr \<noteq> []" "length '' '' < length splitRequiredAttr"
  "splitsRequiredMeta \<noteq> []" "length ([] :: string) < length splitsRequiredMeta"
  "splitsMeta \<noteq> []" "length ([] :: string) < length splitsMeta"
  "stampDistribution \<noteq> []"
  \<open>length ''android:value="STAMP_TYPE_STANDALONE_APK"'' < length stampDistribution\<close>
  by (simp_all add: splitRequiredAttr_def splitsRequiredMeta_def splitsMeta_def
      stampDistribution_def regex_def)

lemma sanitizeText_fixed: "(sanitizeText s = s) = (\<not> anyMatch s)"
proof
  assume "\<not> anyMatch s"
  then show "sanitizeText s = s"
    by (simp add: anyMatch_def sanitizeText_def replaceAll_no_occurrence pattern_sizes)
next
  let ?s1 = "replaceAll splitRequiredAttr '' '' s"
  let ?s2 = "replaceAll splitsRequiredMeta [] ?s1"
  let ?s3 = "replaceAll splitsMeta [] ?s2"
  let ?R = \<open>''android:value="STAMP_TYPE_STANDALONE_APK"''\<close>
  let ?s4 = "replaceAll stampDistribution ?R ?s3"
  assume "sanitizeText s = s"
  then have eq: "?s4 = s" by (simp add: sanitizeText_def)
  have l1: "length ?s1 \<le> length s" by (intro replaceAll_length_le) (use pattern_sizes in simp_all)
  have l2: "length ?s2 \<le> length ?s1" by (intro replaceAll_length_le) (use pattern_sizes in simp_all)
  have l3: "length ?s3 \<le> length ?s2" by (intro replaceAll_length_le) (use pattern_sizes in simp_all)
  have l4: "length ?s4 \<le> length ?s3" by (intro replaceAll_length_le) (use pattern_sizes in simp_all)
  from eq have l: "length ?s4 = length s" by simp
  have n1: "\<not> occurs splitRequiredAttr s"
    using replaceAll_length_less[OF pattern_sizes(1,2), of s] l l1 l2 l3 l4 by auto
  then have e1: "?s1 = s" by (simp add: replaceAll_no_occurrence pattern_sizes)
  have n2: "\<not> occurs splitsRequiredMeta s"
    using replaceAll_length_less[OF pattern_sizes(3,4), of ?s1] l l1 l2 l3 l4 e1 by auto
  then have e2: "?s2 = s" using e1 by (simp add: replaceAll_no_occurrence pattern_sizes)
  have n3: "\<not> occurs splitsMeta s"
    using replaceAll_length_less[OF pattern_sizes(5,6), of ?s2] l l1 l2 l3 l4 e2 by auto
  then have e3: "?s3 = s" using e2 by (simp add: replaceAll_no_occurrence pattern_sizes)
  have n4: "\<not> occurs stampDistribution s"
    using replaceAll_length_less[OF pattern_sizes(7,8), of ?s3] l l1 l2 l3 l4 e3 by auto
  from n1 n2 n3 n4 show "\<not> anyMatch s" by (simp add: anyMatch_def)
qed


section \<open>The steps of a request\<close>

lemma wsOnly_fields: "wsOnly outputFile" "wsOnly rmCalls"
  by (simp_all add: wsOnly_def)

lemma keepsD: "keeps fld m \<Longrightarrow> m s = (r, s') \<Longrightarrow> fld s' = fld s"
  unfolding keeps_def by (metis snd_conv)



lemma keeps_ret: "keeps fld (ret x)"
  by (simp add: keeps_def ret_def)

lemma keeps_throw: "keeps fld (throw e)"
  by (simp add: keeps_def throw_def)

lemma keeps_bind: "keeps fld m \<Longrightarrow> (\<And>x. keeps fld (f x)) \<Longrightarrow> keeps fld (bind m f)"
  unfolding keeps_def bind_def
  by (auto split: prod.splits sum.splits) (metis snd_conv)+

lemma keeps_logInfo: "wsOnly fld \<Longrightarrow> keeps fld (logInfo msg)"
  by (simp add: keeps_def logInfo_def wsOnly_def)

lemma keeps_withWs: "wsOnly fld \<Longrightarrow> keeps fld (withWs f)"
  by (auto simp: keeps_def withWs_def wsOnly_def split: option.splits prod.splits)

lemma keeps_copyLoop: "wsOnly fld \<Longrightarrow> keeps fld (copyLoop es files prepared)"
proof (induction files arbitrary: prepared)
  case Nil
  then show ?case by (simp add: keeps_def)
next
  case (Cons f files)
  show ?case unfolding keeps_def
  proof
    fix s
    show "fld (snd (copyLoop es (f # files) prepared s)) = fld s"
    proof (cases "map_of es f")
      case None
      then show ?thesis by simp
    next
      case (Some n)
      show ?thesis
      proof (cases n)
        case (Dir sub)
        with Some show ?thesis by simp
      next
        case (File c)
        obtain r s1 where w: "withWs (writeFileWs f c) s = (r, s1)" by fastforce
        from keepsD[OF keeps_withWs[OF Cons.prems] w] have f1: "fld s1 = fld s" .
        show ?thesis
        proof (cases r)
          case (Inl e)
          with Some File w f1 show ?thesis by simp
        next
          case (Inr u)
          from Cons.IH[OF Cons.prems, of "prepared @ [f]"]
          have "fld (snd (copyLoop es files (prepared @ [f]) s1)) = fld s1" by (simp add: keeps_def)
          with Inr Some File w f1 show ?thesis by simp
        qed
      qed
    qed
  qed
qed

lemma keeps_prepareApkFiles: "wsOnly fld \<Longrightarrow> keeps fld prepareApkFiles"
proof -
  assume w: "wsOnly fld"
  have "\<And>es files s. fld (snd (copyLoop es files [] s)) = fld s"
    using keeps_copyLoop[OF w] by (simp add: keeps_def)
  then show ?thesis
    unfolding keeps_def prepareApkFiles_def by (auto split: option.splits node.splits)
qed

lemma keeps_unpackApk: "wsOnly fld \<Longrightarrow> keeps fld (unpackApk en f)"
  unfolding unpackApk_def by (intro keeps_bind keeps_logInfo keeps_withWs)

lemma keeps_unpackAll: "wsOnly fld \<Longrightarrow> keeps fld (unpackAll en fs)"
  by (induction fs) (auto intro!: keeps_bind keeps_ret keeps_unpackApk)

lemma keeps_mergeAll: "wsOnly fld \<Longrightarrow> keeps fld (mergeAll m ds)"
  by (induction ds) (auto intro!: keeps_bind keeps_ret keeps_withWs)

lemma keeps_onDir: "wsOnly fld \<Longrightarrow> keeps fld (onDir d f)"
  unfolding onDir_def by (rule keeps_withWs)

lemma keeps_packApk: "wsOnly fld \<Longrightarrow> keeps fld (packApk en d)"
  unfolding packApk_def by (intro keeps_bind keeps_logInfo keeps_withWs)

lemma keeps_zipalignApk: "wsOnly fld \<Longrightarrow> keeps fld (zipalignApk en)"
  unfolding zipalignApk_def by (intro keeps_bind keeps_logInfo keeps_withWs)

lemma keeps_stepsBeforePack: "wsOnly fld \<Longrightarrow> keeps fld (stepsBeforePack en)"
  unfolding stepsBeforePack_def Let_def
  by (intro keeps_bind keeps_prepareApkFiles)
     (auto intro!: keeps_bind keeps_ret keeps_throw keeps_unpackAll keeps_mergeAll keeps_onDir)

lemma keeps_copyToOutput_rmCalls: "keeps rmCalls (copyToOutput en)"
  by (auto simp: keeps_def copyToOutput_def split: option.splits node.splits)

lemma keeps_tryBlock_rmCalls: "keeps rmCalls (tryBlock en out)"
  unfolding tryBlock_def stepsFromPack_def
  by (intro keeps_bind keeps_stepsBeforePack keeps_packApk keeps_zipalignApk
      keeps_copyToOutput_rmCalls keeps_logInfo keeps_ret wsOnly_fields)














lemma keeps_createTmpDir: "wsOnly fld \<Longrightarrow> keeps fld (createTmpDir en)"
  by (auto simp: keeps_def createTmpDir_def wsOnly_def split: option.splits node.splits)

lemma createTmpDir_Inl: "createTmpDir en s0 = (Inl e, s1) \<Longrightarrow> s1 = s0"
  by (auto simp: createTmpDir_def split: option.splits node.splits)

lemma mergeApks_unfold:
  assumes "createTmpDir en s0 = (Inr (), s1)" "tryBlock en out (logCreated s1) = (r, s3)"
  shows "mergeApks en out s0 =
     (case rmTmp en of
        Some e \<Rightarrow> (Inl e, (case r of Inl e' \<Rightarrow> s3\<lparr>logs := logs s3 @ [ErrorLine ''Error merging APKs'' e']\<rparr> | Inr p \<Rightarrow> s3)
                      \<lparr>rmCalls := rmCalls s3 + 1\<rparr>)
      | None \<Rightarrow> (r, (case r of Inl e' \<Rightarrow> s3\<lparr>logs := logs s3 @ [ErrorLine ''Error merging APKs'' e']\<rparr> | Inr p \<Rightarrow> s3)
                      \<lparr>rmCalls := rmCalls s3 + 1, tmp := None\<rparr>))"
  using assms by (cases r) (simp_all add: mergeApks_def Let_def split: option.splits)


lemma sample_created:
  "createTmpDir sampleEnv sampleState = (Inr (), sampleState\<lparr>tmp := Some (Dir [])\<rparr>)"
  "createTmpDir repackFailsEnv sampleState = (Inr (), sampleState\<lparr>tmp := Some (Dir [])\<rparr>)"
  "createTmpDir rmFailsEnv sampleState = (Inr (), sampleState\<lparr>tmp := Some (Dir [])\<rparr>)"
  "createTmpDir rmFailsEnv emptyInputState = (Inr (), emptyInputState\<lparr>tmp := Some (Dir [])\<rparr>)"
  by (simp_all add: createTmpDir_def sampleEnv_def repackFailsEnv_def rmFailsEnv_def
      sampleState_def emptyInputState_def)

lemma sample_try:
  "fst (tryBlock sampleEnv ''/out/merged.apk'' (logCreated (sampleState\<lparr>tmp := Some (Dir [])\<rparr>)))
     = Inr ''/out/merged.apk''"
  by code_simp


lemma sample_try_rm:
  "fst (tryBlock rmFailsEnv ''/out/merged.apk'' (logCreated (sampleState\<lparr>tmp := Some (Dir [])\<rparr>)))
     = Inr ''/out/merged.apk''"
  "fst (tryBlock rmFailsEnv ''/out/merged.apk'' (logCreated (emptyInputState\<lparr>tmp := Some (Dir [])\<rparr>)))
     = Inl NoApkFiles"
  by code_simp+



section \<open>Signature files\<close>





lemma lookup_writeAt_other:
  "take (length p) q \<noteq> p \<Longrightarrow> take (length q) p \<noteq> q \<Longrightarrow> lookup q (writeAt p new a) = lookup q a"
proof (induction p arbitrary: q a)
  case Nil
  then show ?case by simp
next
  case (Cons k p)
  from Cons.prems(2) obtain j q' where q: "q = j # q'" by (cases q) auto
  show ?case
  proof (cases a)
    case (File c)
    then show ?thesis by simp
  next
    case (Dir es)
    show ?thesis
    proof (cases "map_of es k")
      case None
      with Dir show ?thesis by simp
    next
      case (Some ch)
      show ?thesis
      proof (cases "j = k")
        case True
        with Cons.prems q have "take (length p) q' \<noteq> p" "take (length q') p \<noteq> q'" by auto
        from Cons.IH[OF this] True Some Dir q show ?thesis
          by (simp add: child_def update_conv')
      next
        case False
        with Some Dir q show ?thesis by (simp add: child_def update_conv')
      qed
    qed
  qed
qed








section \<open>The configuration file is the only base file rewritten\<close>

lemma mergeConfig_cases:
  "mergeConfig main sec = (main', e) \<Longrightarrow>
   main' = main \<or>
   (\<exists>m c w. main = Some m \<and> child m ''apktool.yml'' = Some (File c) \<and>
            main' = Some (writeAt [''apktool.yml''] (File w) m))"
  by (auto simp: mergeConfig_def split: option.splits node.splits)

lemma mergeApkContents_keeps_other_files:
  assumes "lookup p base = Some (File c)" "p \<noteq> [''apktool.yml'']"
  shows "\<exists>base'. fst (mergeApkContents (Some base) sec) = Some base' \<and>
                 lookup p base' = Some (File c)"
proof -
  obtain m1 e1 where d: "mergeDirs (Some base) sec = (m1, e1)" by fastforce
  from mergeDirsLoop_keeps_files[OF assms(1), of dirsToMerge sec] d
  obtain b1 where b1: "m1 = Some b1" "lookup p b1 = Some (File c)"
    by (auto simp: mergeDirs_def)
  show ?thesis
  proof (cases e1)
    case (Some e)
    with d b1 show ?thesis by (simp add: mergeApkContents_def)
  next
    case None
    obtain m2 e2 where c2: "mergeConfig (Some b1) sec = (m2, e2)" by fastforce
    from None d b1 c2 have r: "fst (mergeApkContents (Some base) sec) = m2"
      by (simp add: mergeApkContents_def)
    from mergeConfig_cases[OF c2] show ?thesis
    proof (elim disjE exE conjE)
      assume "m2 = Some b1"
      with r b1 show ?thesis by simp
    next
      fix m c0 w
      assume h: "Some b1 = Some m" "child m ''apktool.yml'' = Some (File c0)"
        "m2 = Some (writeAt [''apktool.yml''] (File w) m)"
      then have m: "m = b1" by simp
      have "lookup p (writeAt [''apktool.yml''] (File w) b1) = lookup p b1"
      proof (cases p)
        case Nil
        with b1(2) h(2) m show ?thesis by (simp add: child_def)
      next
        case (Cons x q)
        show ?thesis
        proof (cases "x = ''apktool.yml''")
          case True
          with Cons assms(2) obtain y q' where "q = y # q'" by (cases q) auto
          with True Cons b1(2) h(2) m show ?thesis by (simp add: child_def)
        next
          case False
          with Cons show ?thesis by (intro lookup_writeAt_other) auto
        qed
      qed
      with r h(3) m b1 show ?thesis by simp
    qed
  qed
qed

text \<open>
  What \<^verbatim>\<open>mergeApktoolYml\<close> writes.  When the scan of the secondary file returns at least
  one line and the range scan of the base file extracts at least one, the content
  written, read as lines, is the base file with the lines from \<open>startIndex\<close> to
  \<open>endIndex\<close> replaced by the sorted, duplicate-free list of the lines both scans
  returned; the lines before and after the range are unchanged.
\<close>

lemma mergeApktoolYml_splice:
  assumes "dstLines = split CHR 0x0A dstContent"
    and "r = getDoNotCompressRange dstLines"
    and "srcItems = getDoNotCompressLines (split CHR 0x0A srcContent)"
    and "srcItems \<noteq> []"
    and "lines r \<noteq> []"
  shows "\<exists>written. mergeApktoolYml srcContent dstContent = Some written \<and>
           split CHR 0x0A written =
             take (nat (startIndex r)) dstLines @
             sorted_list_of_set (set (lines r) \<union> set srcItems) @
             drop (nat (endIndex r) + 1) dstLines \<and>
           dstLines =
             take (nat (startIndex r)) dstLines @ rangeLines r dstLines @
             drop (nat (endIndex r) + 1) dstLines \<and>
           filter isItemLine (rangeLines r dstLines) = lines r"
proof -
  let ?merged = "sorted_list_of_set (set (lines r) \<union> set srcItems)"
  let ?new = "take (nat (startIndex r)) dstLines @ ?merged @ drop (nat (endIndex r) + 1) dstLines"
  have post: "rangePost r dstLines" unfolding assms(2) by (rule getDoNotCompressRange_post)
  note p = rangePost_indices[OF post assms(5)]
  have idx: "startIndex r \<noteq> -1" "endIndex r \<noteq> -1" using p by auto
  have cnt: "nat (startIndex r) + nat (endIndex r - startIndex r + 1) = nat (endIndex r) + 1"
    using p by auto
  have srt: "sort (rev (remdups (rev (lines r @ srcItems)))) = ?merged"
    by (subst sort_distinct) (auto simp: Un_commute)
  have m: "mergeApktoolYml srcContent dstContent = Some (join [CHR 0x0A] ?new)"
    using assms(1,2,3,4) idx cnt srt
    by (simp add: mergeApktoolYml_def Let_def splice_def)
  have "set (lines r) \<subseteq> set dstLines"
  proof -
    have "set (lines r) \<subseteq> set (rangeLines r dstLines)" using p by (metis filter_is_subset)
    also have "\<dots> \<subseteq> set dstLines" unfolding rangeLines_def
      by (meson set_take_subset set_drop_subset subset_trans)
    finally show ?thesis .
  qed
  moreover have "set srcItems \<subseteq> set (split CHR 0x0A srcContent)"
    unfolding assms(3) by (rule getDoNotCompressLines_subset)
  ultimately have nosep: "\<forall>l\<in>set ?new. CHR 0x0A \<notin> set l"
    using split_no_sep[of _ "CHR 0x0A" dstContent] split_no_sep[of _ "CHR 0x0A" srcContent] assms(1)
    by (auto dest: in_set_takeD in_set_dropD)
  have "set ?merged = set (lines r) \<union> set srcItems" by simp
  then have "set ?merged \<noteq> {}" using assms(4) by simp
  then have "?merged \<noteq> []" by (metis set_empty)
  then have ne: "?new \<noteq> []" by (simp only: append_is_Nil_conv) blast
  from split_join[OF ne nosep] m p show ?thesis by simp
qed

text \<open>
  \<^verbatim>\<open>mergeApkContents\<close>, lines 125 to 130: with both configuration files present, what
  \<^verbatim>\<open>mergeApktoolYml\<close> returns is written to \<open>apktool.yml\<close> of the base tree, and the
  base tree is left as it is when the function returns before writing.
\<close>

lemma mergeConfig_writes:
  assumes "child m ''apktool.yml'' = Some (File dstContent)"
    and "child s ''apktool.yml'' = Some (File srcContent)"
  shows "mergeConfig (Some m) (Some s) =
    (case mergeApktoolYml srcContent dstContent of
       None \<Rightarrow> (Some m, None)
     | Some written \<Rightarrow> (Some (writeAt [''apktool.yml''] (File written) m), None))"
  using assms by (simp add: mergeConfig_def split: option.splits)

lemma mergeConfig_union:
  assumes "child m ''apktool.yml'' = Some (File dstContent)"
    and "child s ''apktool.yml'' = Some (File srcContent)"
    and "getDoNotCompressLines (split CHR 0x0A srcContent) \<noteq> []"
    and "lines (getDoNotCompressRange (split CHR 0x0A dstContent)) \<noteq> []"
  shows "\<exists>written.
           mergeConfig (Some m) (Some s) = (Some (writeAt [''apktool.yml''] (File written) m), None) \<and>
           split CHR 0x0A written =
             take (nat (startIndex (getDoNotCompressRange (split CHR 0x0A dstContent))))
               (split CHR 0x0A dstContent) @
             sorted_list_of_set
               (set (lines (getDoNotCompressRange (split CHR 0x0A dstContent))) \<union>
                set (getDoNotCompressLines (split CHR 0x0A srcContent))) @
             drop (nat (endIndex (getDoNotCompressRange (split CHR 0x0A dstContent))) + 1)
               (split CHR 0x0A dstContent)"
proof -
  from mergeApktoolYml_splice[OF refl refl refl assms(3,4)]
  obtain written where w: "mergeApktoolYml srcContent dstContent = Some written"
    "split CHR 0x0A written =
       take (nat (startIndex (getDoNotCompressRange (split CHR 0x0A dstContent))))
         (split CHR 0x0A dstContent) @
       sorted_list_of_set
         (set (lines (getDoNotCompressRange (split CHR 0x0A dstContent))) \<union>
          set (getDoNotCompressLines (split CHR 0x0A srcContent))) @
       drop (nat (endIndex (getDoNotCompressRange (split CHR 0x0A dstContent))) + 1)
         (split CHR 0x0A dstContent)"
    by blast
  from mergeConfig_writes[OF assms(1,2)] w(1)
  have "mergeConfig (Some m) (Some s) = (Some (writeAt [''apktool.yml''] (File written) m), None)"
    by simp
  with w(2) show ?thesis by blast
qed

section \<open>Claims on the configuration block\<close>

text \<open>
  Claim C8, as stated, fails: on a file with a second key line the two scans return
  different item lines, and with a blank line between two items the lines from
  \<open>startIndex\<close> to \<open>endIndex\<close> are not the extracted item lines.
\<close>

theorem scans_differ_counterexample:
  "getDoNotCompressLines [''doNotCompress:'', ''- a'', ''doNotCompress:'', ''- b'']
     \<noteq> lines (getDoNotCompressRange [''doNotCompress:'', ''- a'', ''doNotCompress:'', ''- b''])
   \<and> rangeLines (getDoNotCompressRange [''doNotCompress:'', ''- a'', '''', ''- b''])
        [''doNotCompress:'', ''- a'', '''', ''- b'']
     \<noteq> lines (getDoNotCompressRange [''doNotCompress:'', ''- a'', '''', ''- b''])"
  by code_simp

text \<open>
  Claim C8, amended.  On lines with at most one key line and no comment line that is
  indented, both scans return the same item lines.  On every input, the range scan
  reports \<open>-1\<close> and \<open>-1\<close> when it extracts nothing; otherwise \<open>startIndex\<close> and
  \<open>endIndex\<close> are the indices of the first and of the last extracted item line, the
  extracted lines are the item lines between them in order, and every other line
  between them is blank or a comment.
\<close>

theorem scans_agree_and_range:
  "((\<forall>l\<in>set ls. startsWith (trim l) ''#'' \<longrightarrow> startsWith l ''#'') \<and>
    length (filter isKeyLine ls) \<le> 1
      \<longrightarrow> lines (getDoNotCompressRange ls) = getDoNotCompressLines ls) \<and>
   (lines (getDoNotCompressRange ls) = []
      \<longrightarrow> startIndex (getDoNotCompressRange ls) = -1 \<and> endIndex (getDoNotCompressRange ls) = -1) \<and>
   (lines (getDoNotCompressRange ls) \<noteq> []
      \<longrightarrow> 0 \<le> startIndex (getDoNotCompressRange ls) \<and>
          startIndex (getDoNotCompressRange ls) \<le> endIndex (getDoNotCompressRange ls) \<and>
          endIndex (getDoNotCompressRange ls) < int (length ls) \<and>
          ls ! nat (startIndex (getDoNotCompressRange ls)) = hd (lines (getDoNotCompressRange ls)) \<and>
          ls ! nat (endIndex (getDoNotCompressRange ls)) = last (lines (getDoNotCompressRange ls)) \<and>
          filter isItemLine (rangeLines (getDoNotCompressRange ls) ls) = lines (getDoNotCompressRange ls) \<and>
          (\<forall>l\<in>set (rangeLines (getDoNotCompressRange ls) ls). okLine l))"
proof (intro conjI impI)
  assume "(\<forall>l\<in>set ls. startsWith (trim l) ''#'' \<longrightarrow> startsWith l ''#'') \<and>
    length (filter isKeyLine ls) \<le> 1"
  then show "lines (getDoNotCompressRange ls) = getDoNotCompressLines ls"
    using scans_agree_loop[of ls False "-1" "-1" "[]" 0]
    by (simp add: getDoNotCompressRange_def getDoNotCompressLines_def)
next
  assume e: "lines (getDoNotCompressRange ls) = []"
  from rangePost_empty[OF getDoNotCompressRange_post e]
  show "startIndex (getDoNotCompressRange ls) = -1" "endIndex (getDoNotCompressRange ls) = -1"
    by simp_all
next
  assume ne: "lines (getDoNotCompressRange ls) \<noteq> []"
  note p = rangePost_indices[OF getDoNotCompressRange_post ne]
  from p show "0 \<le> startIndex (getDoNotCompressRange ls)" by blast
  from p show "startIndex (getDoNotCompressRange ls) \<le> endIndex (getDoNotCompressRange ls)" by blast
  from p show "endIndex (getDoNotCompressRange ls) < int (length ls)" by blast
  from p show "ls ! nat (startIndex (getDoNotCompressRange ls)) = hd (lines (getDoNotCompressRange ls))" by blast
  from p show "ls ! nat (endIndex (getDoNotCompressRange ls)) = last (lines (getDoNotCompressRange ls))" by blast
  from p show "filter isItemLine (rangeLines (getDoNotCompressRange ls) ls) = lines (getDoNotCompressRange ls)" by blast
  from p show "\<forall>l\<in>set (rangeLines (getDoNotCompressRange ls) ls). okLine l" by blast
qed

theorem scans_agree_and_range_witness:
  "list_all (\<lambda>l. startsWith (trim l) ''#'' \<longrightarrow> startsWith l ''#'')
     [''version: 2'', ''doNotCompress:'', ''- so'', ''# note'', '''', ''- png'', ''isFrameworkApk: false''] \<and>
   length (filter isKeyLine [''version: 2'', ''doNotCompress:'', ''- so'', ''# note'', '''', ''- png'', ''isFrameworkApk: false'']) \<le> 1 \<and>
   getDoNotCompressLines [''version: 2'', ''doNotCompress:'', ''- so'', ''# note'', '''', ''- png'', ''isFrameworkApk: false'']
     = [''- so'', ''- png''] \<and>
   getDoNotCompressRange [''version: 2'', ''doNotCompress:'', ''- so'', ''# note'', '''', ''- png'', ''isFrameworkApk: false'']
     = \<lparr>startIndex = 2, endIndex = 5, lines = [''- so'', ''- png'']\<rparr>"
proof -
  let ?ls = "[''version: 2'', ''doNotCompress:'', ''- so'', ''# note'', '''', ''- png'', ''isFrameworkApk: false'']"
  have h: "(\<forall>l\<in>set ?ls. startsWith (trim l) ''#'' \<longrightarrow> startsWith l ''#'') \<and>
    length (filter isKeyLine ?ls) \<le> 1" by code_simp
  have r: "getDoNotCompressRange ?ls = \<lparr>startIndex = 2, endIndex = 5, lines = [''- so'', ''- png'']\<rparr>"
    by code_simp
  from scans_agree_and_range[of ?ls] h have "lines (getDoNotCompressRange ?ls) = getDoNotCompressLines ?ls"
    by blast
  with h r show ?thesis by (simp add: list_all_iff)
qed

text \<open>
  Claim C2 fails on a secondary file whose block holds an indented comment line.
  On the example of the specification the base tree's \<open>apktool.yml\<close> is rewritten
  with the sorted union of the two blocks.  With the secondary block \<open>- a\<close>,
  an indented comment, \<open>- b\<close>, the extraction scan stops at the comment, where the
  range scan of the same lines goes on to \<open>- b\<close>, and the file written lists \<open>- a\<close>
  and \<open>- x\<close> without \<open>- b\<close>.  With a secondary block that opens with an indented
  comment the extraction scan returns no line and the base tree is left as it is.
\<close>

theorem mergeConfig_indented_comment:
  "mergeConfig
     (Some (Dir [(''apktool.yml'',
        File ''version: 2\<newline>doNotCompress:\<newline>- res/a.so\<newline>- res/b.so\<newline>isFrameworkApk: false'')]))
     (Some (Dir [(''apktool.yml'', File ''doNotCompress:\<newline>- res/b.so\<newline>- res/c.so'')]))
     = (Some (Dir [(''apktool.yml'',
          File ''version: 2\<newline>doNotCompress:\<newline>- res/a.so\<newline>- res/b.so\<newline>- res/c.so\<newline>isFrameworkApk: false'')]),
        None) \<and>
   getDoNotCompressLines (split CHR 0x0A ''doNotCompress:\<newline>- a\<newline>  # c\<newline>- b'') = [''- a''] \<and>
   lines (getDoNotCompressRange (split CHR 0x0A ''doNotCompress:\<newline>- a\<newline>  # c\<newline>- b''))
     = [''- a'', ''- b''] \<and>
   mergeConfig
     (Some (Dir [(''apktool.yml'', File ''doNotCompress:\<newline>- x'')]))
     (Some (Dir [(''apktool.yml'', File ''doNotCompress:\<newline>- a\<newline>  # c\<newline>- b'')]))
     = (Some (Dir [(''apktool.yml'', File ''doNotCompress:\<newline>- a\<newline>- x'')]), None) \<and>
   getDoNotCompressLines (split CHR 0x0A ''doNotCompress:\<newline>  # native\<newline>- lib/a.so'') = [] \<and>
   lines (getDoNotCompressRange (split CHR 0x0A ''doNotCompress:\<newline>  # native\<newline>- lib/a.so''))
     = [''- lib/a.so''] \<and>
   mergeConfig
     (Some (Dir [(''apktool.yml'', File ''doNotCompress:\<newline>- x'')]))
     (Some (Dir [(''apktool.yml'', File ''doNotCompress:\<newline>  # native\<newline>- lib/a.so'')]))
     = (Some (Dir [(''apktool.yml'', File ''doNotCompress:\<newline>- x'')]), None)"
  by code_simp


section \<open>Claims on the tree merge\<close>

text \<open>
  Claim C1.  Whatever the secondary tree, every file of the base tree is still there
  with the same content after the merge of the five directories, also when the merge
  throws half-way; and a file entry of the secondary whose destination name already
  exists is skipped without an error: the loop goes on with the next entry on the same
  destination.
\<close>

theorem mergeDirs_keeps_base_files:
  "(lookup p base = Some (File c) \<longrightarrow>
      (\<exists>base'. fst (mergeDirs (Some base) sec) = Some base' \<and> lookup p base' = Some (File c))) \<and>
   (map_of des name \<noteq> None \<longrightarrow>
      mergeEntries ((name, File c') # rest) (Dir des) = mergeEntries rest (Dir des))"
proof (intro conjI impI)
  assume "lookup p base = Some (File c)"
  then show "\<exists>base'. fst (mergeDirs (Some base) sec) = Some base' \<and> lookup p base' = Some (File c)"
    unfolding mergeDirs_def by (rule mergeDirsLoop_keeps_files)
next
  assume "map_of des name \<noteq> None"
  then show "mergeEntries ((name, File c') # rest) (Dir des) = mergeEntries rest (Dir des)"
    by auto
qed

theorem mergeDirs_keeps_base_files_witness:
  "lookup [''res'', ''x''] (Dir [(''res'', Dir [(''x'', File ''A'')])]) = Some (File ''A'') \<and>
   mergeDirs (Some (Dir [(''res'', Dir [(''x'', File ''A'')])]))
             (Some (Dir [(''res'', Dir [(''x'', File ''B''), (''y'', File ''C'')])]))
     = (Some (Dir [(''res'', Dir [(''x'', File ''A''), (''y'', File ''C'')])]), None) \<and>
   (\<exists>base'. fst (mergeDirs (Some (Dir [(''res'', Dir [(''x'', File ''A'')])]))
                    (Some (Dir [(''res'', Dir [(''x'', File ''B''), (''y'', File ''C'')])])))
              = Some base' \<and>
            lookup [''res'', ''x''] base' = Some (File ''A''))"
proof -
  have h: "lookup [''res'', ''x''] (Dir [(''res'', Dir [(''x'', File ''A'')])]) = Some (File ''A'')"
    by code_simp
  have v: "mergeDirs (Some (Dir [(''res'', Dir [(''x'', File ''A'')])]))
             (Some (Dir [(''res'', Dir [(''x'', File ''B''), (''y'', File ''C'')])]))
     = (Some (Dir [(''res'', Dir [(''x'', File ''A''), (''y'', File ''C'')])]), None)"
    by code_simp
  from mergeDirs_keeps_base_files[of "[''res'', ''x'']" "Dir [(''res'', Dir [(''x'', File ''A'')])]" "''A''"
      "Some (Dir [(''res'', Dir [(''x'', File ''B''), (''y'', File ''C'')])])"] h
  have "\<exists>base'. fst (mergeDirs (Some (Dir [(''res'', Dir [(''x'', File ''A'')])]))
                    (Some (Dir [(''res'', Dir [(''x'', File ''B''), (''y'', File ''C'')])])))
              = Some base' \<and>
            lookup [''res'', ''x''] base' = Some (File ''A'')"
    by blast
  with h v show ?thesis by blast
qed

text \<open>
  Claim C6.  For a secondary tree whose directories list each name once: when the
  merge of the five directories has completed without an error, merging the same
  secondary tree again completes without an error and leaves the base tree as it is.
\<close>

theorem mergeDirs_idempotent:
  assumes "wf sec" and "mergeDirs base (Some sec) = (base', None)"
  shows "mergeDirs base' (Some sec) = (base', None)"
  using assms unfolding mergeDirs_def
  by (intro mergeDirsLoop_idem) (simp_all add: dirsToMerge_def)

theorem mergeDirs_idempotent_witness:
  "wf (Dir [(''res'', Dir [(''x'', File ''B''), (''y'', File ''C'')]),
            (''lib'', Dir [(''arm64'', Dir [(''libx.so'', File ''S'')])])]) \<and>
   mergeDirs (Some (Dir [(''res'', Dir [(''x'', File ''A'')])]))
     (Some (Dir [(''res'', Dir [(''x'', File ''B''), (''y'', File ''C'')]),
                 (''lib'', Dir [(''arm64'', Dir [(''libx.so'', File ''S'')])])]))
     = (Some (Dir [(''res'', Dir [(''x'', File ''A''), (''y'', File ''C'')]),
                   (''lib'', Dir [(''arm64'', Dir [(''libx.so'', File ''S'')])])]), None) \<and>
   mergeDirs (Some (Dir [(''res'', Dir [(''x'', File ''A''), (''y'', File ''C'')]),
                         (''lib'', Dir [(''arm64'', Dir [(''libx.so'', File ''S'')])])]))
     (Some (Dir [(''res'', Dir [(''x'', File ''B''), (''y'', File ''C'')]),
                 (''lib'', Dir [(''arm64'', Dir [(''libx.so'', File ''S'')])])]))
     = (Some (Dir [(''res'', Dir [(''x'', File ''A''), (''y'', File ''C'')]),
                   (''lib'', Dir [(''arm64'', Dir [(''libx.so'', File ''S'')])])]), None)"
proof -
  let ?sec = "Dir [(''res'', Dir [(''x'', File ''B''), (''y'', File ''C'')]),
                   (''lib'', Dir [(''arm64'', Dir [(''libx.so'', File ''S'')])])]"
  let ?base = "Some (Dir [(''res'', Dir [(''x'', File ''A'')])])"
  let ?base' = "Some (Dir [(''res'', Dir [(''x'', File ''A''), (''y'', File ''C'')]),
                   (''lib'', Dir [(''arm64'', Dir [(''libx.so'', File ''S'')])])])"
  have w: "wf ?sec" by code_simp
  have m: "mergeDirs ?base (Some ?sec) = (?base', None)" by code_simp
  from mergeDirs_idempotent[OF w m] w m show ?thesis by blast
qed


section \<open>Claims on the input order and the manifest\<close>

text \<open>
  Claim C3.  The names of the input directory that end in \<open>.apk\<close> are returned sorted,
  with \<open>base.apk\<close> first when the directory has it and the others in their sorted
  order; without \<open>base.apk\<close> the list is the sorted list, so its first file is the
  least one.  \<^verbatim>\<open>prepareApkFiles\<close> returns this list whenever it returns, and it does
  return on a directory whose listed entries are files, with a fresh workspace.
\<close>

theorem prepareApkFiles_order:
  "listApkFiles names =
     (if ''base.apk'' \<in> set names
      then ''base.apk'' # remove1 ''base.apk'' (sort (filter (\<lambda>f. endsWith f ''.apk'') names))
      else sort (filter (\<lambda>f. endsWith f ''.apk'') names)) \<and>
   sorted (remove1 ''base.apk'' (sort (filter (\<lambda>f. endsWith f ''.apk'') names))) \<and>
   (''base.apk'' \<notin> set names \<and> filter (\<lambda>f. endsWith f ''.apk'') names \<noteq> [] \<longrightarrow>
      hd (listApkFiles names) = Min {f \<in> set names. endsWith f ''.apk''}) \<and>
   (prepareApkFiles s = (Inr files, s') \<longrightarrow>
      (\<exists>es. inputNode s = Some (Dir es) \<and> files = listApkFiles (map fst es))) \<and>
   (inputNode s = Some (Dir es) \<and> tmp s = Some (Dir []) \<and>
    (\<forall>f\<in>set (listApkFiles (map fst es)). \<exists>c. map_of es f = Some (File c)) \<longrightarrow>
      (\<exists>s'. prepareApkFiles s = (Inr (listApkFiles (map fst es)), s')))"
proof (intro conjI impI)
  show "listApkFiles names =
     (if ''base.apk'' \<in> set names
      then ''base.apk'' # remove1 ''base.apk'' (sort (filter (\<lambda>f. endsWith f ''.apk'') names))
      else sort (filter (\<lambda>f. endsWith f ''.apk'') names))"
    by (rule listApkFiles_order)
next
  show "sorted (remove1 ''base.apk'' (sort (filter (\<lambda>f. endsWith f ''.apk'') names)))"
    by (intro sorted_remove1 sorted_sort)
next
  assume "''base.apk'' \<notin> set names \<and> filter (\<lambda>f. endsWith f ''.apk'') names \<noteq> []"
  then show "hd (listApkFiles names) = Min {f \<in> set names. endsWith f ''.apk''}"
    using listApkFiles_first by blast
next
  assume r: "prepareApkFiles s = (Inr files, s')"
  then obtain es where es: "inputNode s = Some (Dir es)"
    by (auto simp: prepareApkFiles_def split: option.splits node.splits)
  with r have "copyLoop es (listApkFiles (map fst es)) [] s = (Inr files, s')"
    by (simp add: prepareApkFiles_def)
  from copyLoop_returns[OF this] es
  show "\<exists>es. inputNode s = Some (Dir es) \<and> files = listApkFiles (map fst es)" by simp
next
  assume h: "inputNode s = Some (Dir es) \<and> tmp s = Some (Dir []) \<and>
    (\<forall>f\<in>set (listApkFiles (map fst es)). \<exists>c. map_of es f = Some (File c))"
  then have t: "tmp s = Some (Dir [])" and f: "\<forall>f\<in>set (listApkFiles (map fst es)). \<exists>c. map_of es f = Some (File c)"
    by blast+
  have "\<forall>n sub. map_of ([] :: (string \<times> node) list) n \<noteq> Some (Dir sub)" by simp
  from copyLoop_succeeds[OF t this f, of "[]"] h
  show "\<exists>s'. prepareApkFiles s = (Inr (listApkFiles (map fst es)), s')"
    by (simp add: prepareApkFiles_def)
qed

theorem prepareApkFiles_order_witness:
  "listApkFiles [''split_config.arm64.apk'', ''notes.txt'', ''base.apk'', ''a.apk'']
     = [''base.apk'', ''a.apk'', ''split_config.arm64.apk''] \<and>
   listApkFiles [''split_config.arm64.apk'', ''notes.txt'', ''b.apk'', ''a.apk'']
     = [''a.apk'', ''b.apk'', ''split_config.arm64.apk''] \<and>
   fst (prepareApkFiles
     \<lparr>inputNode = Some (Dir [(''split_config.arm64.apk'', File ''s''), (''notes.txt'', File ''n''),
                             (''base.apk'', File ''b''), (''a.apk'', File ''a'')]),
      tmp = Some (Dir []), outputFile = None, logs = [], rmCalls = 0\<rparr>)
     = Inr [''base.apk'', ''a.apk'', ''split_config.arm64.apk'']"
proof -
  let ?es = "[(''split_config.arm64.apk'', File ''s''), (''notes.txt'', File ''n''),
              (''base.apk'', File ''b''), (''a.apk'', File ''a'')]"
  let ?s = "\<lparr>inputNode = Some (Dir ?es), tmp = Some (Dir []), outputFile = None, logs = [], rmCalls = 0\<rparr>"
  have n: "map fst ?es = [''split_config.arm64.apk'', ''notes.txt'', ''base.apk'', ''a.apk'']" by simp
  have srt: "sort (filter (\<lambda>f. endsWith f ''.apk'') [''split_config.arm64.apk'', ''notes.txt'', ''base.apk'', ''a.apk''])
    = [''a.apk'', ''base.apk'', ''split_config.arm64.apk'']" by code_simp
  have srt2: "sort (filter (\<lambda>f. endsWith f ''.apk'') [''split_config.arm64.apk'', ''notes.txt'', ''b.apk'', ''a.apk''])
    = [''a.apk'', ''b.apk'', ''split_config.arm64.apk'']" by code_simp
  note t = prepareApkFiles_order[of "[''split_config.arm64.apk'', ''notes.txt'', ''base.apk'', ''a.apk'']" ?s "[]" ?s ?es]
  have l1: "listApkFiles [''split_config.arm64.apk'', ''notes.txt'', ''base.apk'', ''a.apk'']
     = [''base.apk'', ''a.apk'', ''split_config.arm64.apk'']"
    using t[THEN conjunct1] by (simp only: srt, simp)
  have l2: "listApkFiles [''split_config.arm64.apk'', ''notes.txt'', ''b.apk'', ''a.apk'']
     = [''a.apk'', ''b.apk'', ''split_config.arm64.apk'']"
    using prepareApkFiles_order[of "[''split_config.arm64.apk'', ''notes.txt'', ''b.apk'', ''a.apk'']" ?s "[]" ?s ?es, THEN conjunct1]
    by (simp only: srt2, simp)
  have f: "\<forall>f\<in>set (listApkFiles (map fst ?es)). \<exists>c. map_of ?es f = Some (File c)"
    unfolding n l1 by simp
  have "inputNode ?s = Some (Dir ?es) \<and> tmp ?s = Some (Dir []) \<and>
    (\<forall>f\<in>set (listApkFiles (map fst ?es)). \<exists>c. map_of ?es f = Some (File c))"
    using f by simp
  with t[THEN conjunct2, THEN conjunct2, THEN conjunct2, THEN conjunct2]
  have "\<exists>s'. prepareApkFiles ?s = (Inr (listApkFiles (map fst ?es)), s')" by blast
  then have "fst (prepareApkFiles ?s) = Inr [''base.apk'', ''a.apk'', ''split_config.arm64.apk'']"
    unfolding n l1 by auto
  with l1 l2 show ?thesis by blast
qed

text \<open>
  Claim C7, as stated, fails: removing the first of two adjacent split-required
  attributes, which share a space, leaves the second one between two spaces, and a
  second pass removes it.
\<close>

theorem sanitizeText_not_idempotent_counterexample:
  \<open>sanitizeText (sanitizeText
      ''<application android:isSplitRequired="true" android:isSplitRequired="true" >'')
    \<noteq> sanitizeText
      ''<application android:isSplitRequired="true" android:isSplitRequired="true" >''\<close>
  by code_simp

text \<open>
  Claim C7, amended.  A second pass of the four substitutions changes nothing exactly
  when the text left by the first pass has no match of any of the four patterns; a
  text without any match is left as it is.
\<close>

theorem sanitizeText_idempotent_iff:
  "(sanitizeText (sanitizeText d) = sanitizeText d) = (\<not> anyMatch (sanitizeText d)) \<and>
   (\<not> anyMatch d \<longrightarrow> sanitizeText d = d)"
  using sanitizeText_fixed[of "sanitizeText d"] sanitizeText_fixed[of d] by simp

theorem sanitizeText_idempotent_iff_witness:
  \<open>\<not> anyMatch (sanitizeText
      ''<application android:isSplitRequired="true" android:label="x"><meta-data android:name="com.android.vending.splits.required" android:value="true"/><meta-data android:name="com.android.vending.splits" android:resource="@xml/splits0"/><meta-data android:name="com.android.stamp.type" android:value="STAMP_TYPE_DISTRIBUTION_APK"/></application>'') \<and>
   sanitizeText (sanitizeText
      ''<application android:isSplitRequired="true" android:label="x"><meta-data android:name="com.android.vending.splits.required" android:value="true"/><meta-data android:name="com.android.vending.splits" android:resource="@xml/splits0"/><meta-data android:name="com.android.stamp.type" android:value="STAMP_TYPE_DISTRIBUTION_APK"/></application>'')
    = ''<application android:label="x"><meta-data android:name="com.android.stamp.type" android:value="STAMP_TYPE_STANDALONE_APK"/></application>''\<close>
proof -
  let ?d = \<open>''<application android:isSplitRequired="true" android:label="x"><meta-data android:name="com.android.vending.splits.required" android:value="true"/><meta-data android:name="com.android.vending.splits" android:resource="@xml/splits0"/><meta-data android:name="com.android.stamp.type" android:value="STAMP_TYPE_DISTRIBUTION_APK"/></application>''\<close>
  have v: \<open>sanitizeText ?d = ''<application android:label="x"><meta-data android:name="com.android.stamp.type" android:value="STAMP_TYPE_STANDALONE_APK"/></application>''\<close>
    by code_simp
  have n: "\<not> anyMatch (sanitizeText ?d)" unfolding v by code_simp
  from sanitizeText_idempotent_iff[of ?d] n have "sanitizeText (sanitizeText ?d) = sanitizeText ?d"
    by blast
  with n v show ?thesis by simp
qed


section \<open>Claims on the request\<close>





text \<open>
  Claim C5.  Once the workspace is created, the removal of the workspace is called
  exactly once, whatever the \<^verbatim>\<open>try\<close> block does, and when that removal does not
  throw the workspace is gone afterwards.  When the workspace cannot be created the
  state is unchanged.
\<close>

theorem workspace_removed:
  "(createTmpDir en s0 = (Inl e, s1) \<longrightarrow> snd (mergeApks en out s0) = s0) \<and>
   (createTmpDir en s0 = (Inr (), s1) \<longrightarrow>
      rmCalls (snd (mergeApks en out s0)) = rmCalls s0 + 1 \<and>
      (rmTmp en = None \<longrightarrow> tmp (snd (mergeApks en out s0)) = None))"
proof (intro conjI impI)
  assume c: "createTmpDir en s0 = (Inl e, s1)"
  with createTmpDir_Inl[OF c] show "snd (mergeApks en out s0) = s0" by (simp add: mergeApks_def)
next
  assume c: "createTmpDir en s0 = (Inr (), s1)"
  obtain r s3 where t: "tryBlock en out (logCreated s1) = (r, s3)" by fastforce
  from keepsD[OF keeps_createTmpDir[OF wsOnly_fields(2)] c] have "rmCalls s1 = rmCalls s0" .
  with keepsD[OF keeps_tryBlock_rmCalls t] have r3: "rmCalls s3 = rmCalls s0" by (simp add: logCreated_def)
  from mergeApks_unfold[OF c t] r3
  show "rmCalls (snd (mergeApks en out s0)) = rmCalls s0 + 1" by (cases r) (auto split: option.splits)
  { assume "rmTmp en = None"
    with mergeApks_unfold[OF c t] have "tmp (snd (mergeApks en out s0)) = None" by (cases r) auto }
  then show "rmTmp en = None \<Longrightarrow> tmp (snd (mergeApks en out s0)) = None" .
qed


theorem workspace_removed_witness:
  "createTmpDir sampleEnv sampleState = (Inr (), sampleState\<lparr>tmp := Some (Dir [])\<rparr>) \<and>
   rmTmp sampleEnv = None \<and>
   rmCalls (snd (mergeApks sampleEnv ''/out/merged.apk'' sampleState)) = 1 \<and>
   tmp (snd (mergeApks sampleEnv ''/out/merged.apk'' sampleState)) = None \<and>
   createTmpDir repackFailsEnv sampleState = (Inr (), sampleState\<lparr>tmp := Some (Dir [])\<rparr>) \<and>
   rmTmp repackFailsEnv = None \<and>
   rmCalls (snd (mergeApks repackFailsEnv ''/out/merged.apk'' sampleState)) = 1 \<and>
   tmp (snd (mergeApks repackFailsEnv ''/out/merged.apk'' sampleState)) = None"
proof -
  let ?s1 = "sampleState\<lparr>tmp := Some (Dir [])\<rparr>"
  have rm: "rmTmp sampleEnv = None" "rmTmp repackFailsEnv = None"
    by (simp_all add: repackFailsEnv_def sampleEnv_def)
  have z: "rmCalls sampleState = 0" by (simp add: sampleState_def)
  from workspace_removed[where en=sampleEnv and ?s0.0=sampleState and ?s1.0="?s1"
      and out="''/out/merged.apk''"] sample_created(1) rm(1) z
  have a: "rmCalls (snd (mergeApks sampleEnv ''/out/merged.apk'' sampleState)) = 1 \<and>
     tmp (snd (mergeApks sampleEnv ''/out/merged.apk'' sampleState)) = None" by simp
  from workspace_removed[where en=repackFailsEnv and ?s0.0=sampleState and ?s1.0="?s1"
      and out="''/out/merged.apk''"] sample_created(2) rm(2) z
  have b: "rmCalls (snd (mergeApks repackFailsEnv ''/out/merged.apk'' sampleState)) = 1 \<and>
     tmp (snd (mergeApks repackFailsEnv ''/out/merged.apk'' sampleState)) = None" by simp
  from a b rm sample_created(1,2) show ?thesis by blast
qed


text \<open>
  Claim C9, as stated, fails: with a removal that throws, a merge that has written the
  output fails with the removal's error, and a merge that failed with \<open>NoApkFiles\<close>
  fails with the removal's error instead; the logger gets no line about the removal.
\<close>

theorem cleanup_failure_counterexample:
  "fst (tryBlock rmFailsEnv ''/out/merged.apk'' (logCreated (sampleState\<lparr>tmp := Some (Dir [])\<rparr>)))
     = Inr ''/out/merged.apk'' \<and>
   fst (mergeApks rmFailsEnv ''/out/merged.apk'' sampleState) = Inl (Rejected ''EBUSY'') \<and>
   outputFile (snd (mergeApks rmFailsEnv ''/out/merged.apk'' sampleState)) = Some ''aligned'' \<and>
   fst (tryBlock rmFailsEnv ''/out/merged.apk'' (logCreated (emptyInputState\<lparr>tmp := Some (Dir [])\<rparr>)))
     = Inl NoApkFiles \<and>
   fst (mergeApks rmFailsEnv ''/out/merged.apk'' emptyInputState) = Inl (Rejected ''EBUSY'') \<and>
   logs (snd (mergeApks rmFailsEnv ''/out/merged.apk'' emptyInputState))
     = [Info ''Created temp directory'', ErrorLine ''Error merging APKs'' NoApkFiles]"
  by code_simp


text \<open>
  Claim C9, amended.  When the removal of the workspace returns, the request's result
  is the result of the \<^verbatim>\<open>try\<close> block.  When the removal throws, the request fails with
  the removal's error whatever the \<^verbatim>\<open>try\<close> block returned, the only line logged
  after the \<^verbatim>\<open>try\<close> block is the one of the \<^verbatim>\<open>catch\<close> for the block's own error, and
  the output file is as the \<^verbatim>\<open>try\<close> block left it.
\<close>

theorem cleanup_failure_escalates:
  "createTmpDir en s0 = (Inr (), s1) \<and> tryBlock en out (logCreated s1) = (r, s3) \<longrightarrow>
     (rmTmp en = None \<longrightarrow> fst (mergeApks en out s0) = r) \<and>
     (rmTmp en = Some e \<longrightarrow>
        fst (mergeApks en out s0) = Inl e \<and>
        logs (snd (mergeApks en out s0)) =
          logs s3 @ (case r of Inl e' \<Rightarrow> [ErrorLine ''Error merging APKs'' e'] | Inr p \<Rightarrow> []) \<and>
        outputFile (snd (mergeApks en out s0)) = outputFile s3)"
proof (intro impI)
  assume "createTmpDir en s0 = (Inr (), s1) \<and> tryBlock en out (logCreated s1) = (r, s3)"
  then have c: "createTmpDir en s0 = (Inr (), s1)" and t: "tryBlock en out (logCreated s1) = (r, s3)"
    by blast+
  from mergeApks_unfold[OF c t] show "(rmTmp en = None \<longrightarrow> fst (mergeApks en out s0) = r) \<and>
     (rmTmp en = Some e \<longrightarrow>
        fst (mergeApks en out s0) = Inl e \<and>
        logs (snd (mergeApks en out s0)) =
          logs s3 @ (case r of Inl e' \<Rightarrow> [ErrorLine ''Error merging APKs'' e'] | Inr p \<Rightarrow> []) \<and>
        outputFile (snd (mergeApks en out s0)) = outputFile s3)"
    by (cases r) auto
qed


theorem cleanup_failure_escalates_witness:
  "createTmpDir sampleEnv sampleState = (Inr (), sampleState\<lparr>tmp := Some (Dir [])\<rparr>) \<and>
   rmTmp sampleEnv = None \<and>
   fst (mergeApks sampleEnv ''/out/merged.apk'' sampleState) = Inr ''/out/merged.apk'' \<and>
   createTmpDir rmFailsEnv emptyInputState = (Inr (), emptyInputState\<lparr>tmp := Some (Dir [])\<rparr>) \<and>
   rmTmp rmFailsEnv = Some (Rejected ''EBUSY'') \<and>
   fst (tryBlock rmFailsEnv ''/out/merged.apk'' (logCreated (emptyInputState\<lparr>tmp := Some (Dir [])\<rparr>)))
     = Inl NoApkFiles \<and>
   fst (mergeApks rmFailsEnv ''/out/merged.apk'' emptyInputState) = Inl (Rejected ''EBUSY'') \<and>
   createTmpDir rmFailsEnv sampleState = (Inr (), sampleState\<lparr>tmp := Some (Dir [])\<rparr>) \<and>
   fst (tryBlock rmFailsEnv ''/out/merged.apk'' (logCreated (sampleState\<lparr>tmp := Some (Dir [])\<rparr>)))
     = Inr ''/out/merged.apk'' \<and>
   outputFile (snd (tryBlock rmFailsEnv ''/out/merged.apk'' (logCreated (sampleState\<lparr>tmp := Some (Dir [])\<rparr>))))
     = Some ''aligned'' \<and>
   fst (mergeApks rmFailsEnv ''/out/merged.apk'' sampleState) = Inl (Rejected ''EBUSY'') \<and>
   outputFile (snd (mergeApks rmFailsEnv ''/out/merged.apk'' sampleState)) = Some ''aligned''"
proof -
  let ?s1 = "sampleState\<lparr>tmp := Some (Dir [])\<rparr>"
  let ?s3 = "snd (tryBlock sampleEnv ''/out/merged.apk'' (logCreated ?s1))"
  let ?f3 = "snd (tryBlock rmFailsEnv ''/out/merged.apk'' (logCreated ?s1))"
  have t3: "tryBlock rmFailsEnv ''/out/merged.apk'' (logCreated ?s1) = (Inr ''/out/merged.apk'', ?f3)"
    using sample_try_rm(1) by (metis prod.collapse)
  have o3: "outputFile ?f3 = Some ''aligned''" by code_simp
  let ?e1 = "emptyInputState\<lparr>tmp := Some (Dir [])\<rparr>"
  let ?e3 = "snd (tryBlock rmFailsEnv ''/out/merged.apk'' (logCreated ?e1))"
  have rm: "rmTmp sampleEnv = None" "rmTmp rmFailsEnv = Some (Rejected ''EBUSY'')"
    by (simp_all add: rmFailsEnv_def sampleEnv_def)
  have t: "tryBlock sampleEnv ''/out/merged.apk'' (logCreated ?s1) = (Inr ''/out/merged.apk'', ?s3)"
    using sample_try by (metis prod.collapse)
  have t2: "tryBlock rmFailsEnv ''/out/merged.apk'' (logCreated ?e1) = (Inl NoApkFiles, ?e3)"
    using sample_try_rm(2) by (metis prod.collapse)
  from cleanup_failure_escalates[where en=sampleEnv and ?s0.0=sampleState and ?s1.0="?s1"
      and out="''/out/merged.apk''" and r="Inr ''/out/merged.apk''" and ?s3.0="?s3"]
    sample_created(1) t rm(1)
  have a: "fst (mergeApks sampleEnv ''/out/merged.apk'' sampleState) = Inr ''/out/merged.apk''" by simp
  from cleanup_failure_escalates[where en=rmFailsEnv and ?s0.0=emptyInputState and ?s1.0="?e1"
      and out="''/out/merged.apk''" and r="Inl NoApkFiles" and ?s3.0="?e3" and e="Rejected ''EBUSY''"]
    sample_created(4) t2 rm(2)
  have b: "fst (mergeApks rmFailsEnv ''/out/merged.apk'' emptyInputState) = Inl (Rejected ''EBUSY'')" by simp
  from cleanup_failure_escalates[where en=rmFailsEnv and ?s0.0=sampleState and ?s1.0="?s1"
      and out="''/out/merged.apk''" and r="Inr ''/out/merged.apk''" and ?s3.0="?f3" and e="Rejected ''EBUSY''"]
    sample_created(3) t3 rm(2) o3
  have c: "fst (mergeApks rmFailsEnv ''/out/merged.apk'' sampleState) = Inl (Rejected ''EBUSY'') \<and>
     outputFile (snd (mergeApks rmFailsEnv ''/out/merged.apk'' sampleState)) = Some ''aligned''" by simp
  from a b c o3 rm sample_created(1,3,4) sample_try_rm show ?thesis by simp
qed




end
